theory Spec2Isabelle
  imports Complex_Main
begin

section \<open>Python values\<close>

text \<open>
  The workflow engine of \<^verbatim>\<open>backend/app/services/browser_service.py\<close> works on
  JSON-like Python values: steps, step results, the run context and the final report are
  all dictionaries. A dictionary is an association list in insertion order. A float is a
  rational: finite, and not rounded. A string is a list of characters with code points
  below 256.
\<close>

datatype pyval =
    PNone
  | PBool bool
  | PInt int
  | PFloat rat
  | PStr string
  | PList "pyval list"
  | PDict "(string \<times> pyval) list"

type_synonym pydict = "(string \<times> pyval) list"

text \<open>\<^verbatim>\<open>d.get(k, default)\<close>, \<^verbatim>\<open>d[k]\<close> (raising KeyError, whose \<^verbatim>\<open>str\<close> is the
  quoted key) and \<^verbatim>\<open>d[k] = v\<close> on a dictionary with string keys.\<close>

definition dict_get :: "pydict \<Rightarrow> string \<Rightarrow> pyval \<Rightarrow> pyval" where
  "dict_get d k dflt = (case map_of d k of Some v \<Rightarrow> v | None \<Rightarrow> dflt)"

definition dict_index :: "pydict \<Rightarrow> string \<Rightarrow> string + pyval" where
  "dict_index d k =
     (case map_of d k of Some v \<Rightarrow> Inr v | None \<Rightarrow> Inl ([CHR 0x27] @ k @ [CHR 0x27]))"

fun dict_set :: "pydict \<Rightarrow> string \<Rightarrow> pyval \<Rightarrow> pydict" where
  "dict_set [] k v = [(k, v)]"
| "dict_set ((k', v') # d) k v = (if k' = k then (k, v) # d else (k', v') # dict_set d k v)"

fun type_name :: "pyval \<Rightarrow> string" where
  "type_name PNone = ''NoneType''"
| "type_name (PBool _) = ''bool''"
| "type_name (PInt _) = ''int''"
| "type_name (PFloat _) = ''float''"
| "type_name (PStr _) = ''str''"
| "type_name (PList _) = ''list''"
| "type_name (PDict _) = ''dict''"

text \<open>Truthiness, as tested by \<^verbatim>\<open>if x:\<close>.\<close>

fun truthy :: "pyval \<Rightarrow> bool" where
  "truthy PNone = False"
| "truthy (PBool b) = b"
| "truthy (PInt n) = (n \<noteq> 0)"
| "truthy (PFloat q) = (q \<noteq> 0)"
| "truthy (PStr s) = (s \<noteq> [])"
| "truthy (PList xs) = (xs \<noteq> [])"
| "truthy (PDict d) = (d \<noteq> [])"

text \<open>\<^verbatim>\<open>x.get(k, default)\<close> on an arbitrary value: only a dictionary has \<^verbatim>\<open>get\<close>.\<close>

fun py_get :: "pyval \<Rightarrow> string \<Rightarrow> pyval \<Rightarrow> string + pyval" where
  "py_get (PDict d) k dflt = Inr (dict_get d k dflt)"
| "py_get v k dflt =
     Inl ([CHR 0x27] @ type_name v @ [CHR 0x27] @ '' object has no attribute '' @
          [CHR 0x27] @ ''get'' @ [CHR 0x27])"

text \<open>
  \<^verbatim>\<open>x > 0\<close> and \<^verbatim>\<open>x / 1000\<close>: defined on bool, int and float, TypeError otherwise.
  The true division of an int raises OverflowError when the correctly rounded quotient is
  not a finite double, which is when its absolute value reaches \<open>2^1024 - 2^970\<close>, half
  way between the largest double and \<open>2^1024\<close>. Dividing a float by 1000 cannot overflow.
\<close>

fun py_gt_zero :: "pyval \<Rightarrow> string + bool" where
  "py_gt_zero (PBool b) = Inr b"
| "py_gt_zero (PInt n) = Inr (n > 0)"
| "py_gt_zero (PFloat q) = Inr (q > 0)"
| "py_gt_zero v =
     Inl ([CHR 0x27] @ ''>'' @ [CHR 0x27] @ '' not supported between instances of '' @
          [CHR 0x27] @ type_name v @ [CHR 0x27] @ '' and '' @ [CHR 0x27] @ ''int'' @ [CHR 0x27])"

fun py_div_1000 :: "pyval \<Rightarrow> string + rat" where
  "py_div_1000 (PBool b) = Inr ((if b then 1 else 0) / 1000)"
| "py_div_1000 (PInt n) =
     (if \<bar>n\<bar> \<ge> 1000 * (2 ^ 1024 - 2 ^ 970)
      then Inl ''integer division result too large for a float''
      else Inr (of_int n / 1000))"
| "py_div_1000 (PFloat q) = Inr (q / 1000)"
| "py_div_1000 v =
     Inl (''unsupported operand type(s) for /: '' @ [CHR 0x27] @ type_name v @ [CHR 0x27] @
          '' and '' @ [CHR 0x27] @ ''int'' @ [CHR 0x27])"

text \<open>\<^verbatim>\<open>[selector] + x\<close>: list concatenation needs a list on the right.\<close>

fun py_list_plus :: "pyval list \<Rightarrow> pyval \<Rightarrow> string + pyval list" where
  "py_list_plus xs (PList ys) = Inr (xs @ ys)"
| "py_list_plus xs v =
     Inl (''can only concatenate list (not \"'' @ type_name v @ ''\") to list'')"

text \<open>\<^verbatim>\<open>for x in v\<close>: a list yields its elements, a string its characters, a dictionary
  its keys; the other values are not iterable.\<close>

fun py_iter :: "pyval \<Rightarrow> string + pyval list" where
  "py_iter (PList xs) = Inr xs"
| "py_iter (PStr s) = Inr (map (\<lambda>c. PStr [c]) s)"
| "py_iter (PDict d) = Inr (map (\<lambda>kv. PStr (fst kv)) d)"
| "py_iter v = Inl ([CHR 0x27] @ type_name v @ [CHR 0x27] @ '' object is not iterable'')"

text \<open>
  \<^verbatim>\<open>s.lower()\<close> and the substring test \<^verbatim>\<open>a in b\<close> on strings. Below 256 the
  characters with a lower-case form are \<^verbatim>\<open>A\<close> to \<^verbatim>\<open>Z\<close> (65 to 90) and the
  Latin-1 capitals 192 to 222 without the multiplication sign 215; the lower-case form is
  32 places further on.
\<close>

definition lower_char :: "char \<Rightarrow> char" where
  "lower_char c =
     (let n = (of_char c :: nat) in
      if (65 \<le> n \<and> n \<le> 90) \<or> (192 \<le> n \<and> n \<le> 222 \<and> n \<noteq> 215) then char_of (n + 32) else c)"

fun py_lower :: "pyval \<Rightarrow> string + string" where
  "py_lower (PStr s) = Inr (map lower_char s)"
| "py_lower v =
     Inl ([CHR 0x27] @ type_name v @ [CHR 0x27] @ '' object has no attribute '' @
          [CHR 0x27] @ ''lower'' @ [CHR 0x27])"

fun starts_with :: "string \<Rightarrow> string \<Rightarrow> bool" where
  "starts_with s [] = True"
| "starts_with [] (p # ps) = False"
| "starts_with (c # cs) (p # ps) = (c = p \<and> starts_with cs ps)"

fun contains :: "string \<Rightarrow> string \<Rightarrow> bool" where
  "contains [] sub = (sub = [])"
| "contains (c # cs) sub = (starts_with (c # cs) sub \<or> contains cs sub)"

fun py_in_str :: "pyval \<Rightarrow> string \<Rightarrow> string + bool" where
  "py_in_str (PStr sub) s = Inr (contains s sub)"
| "py_in_str v s =
     Inl ([CHR 0x27] @ ''in <string>'' @ [CHR 0x27] @
          '' requires string as left operand, not '' @ type_name v)"

section \<open>Wall-clock time\<close>

text \<open>
  \<^verbatim>\<open>datetime.now()\<close> returns a naive datetime. The engine formats it with
  \<^verbatim>\<open>strftime("%Y%m%d_%H%M%S")\<close> and subtracts two of them
  (\<^verbatim>\<open>(end_time - start_time).total_seconds()\<close>), which Python computes from the
  proleptic Gregorian ordinal of the date.
\<close>

record datetime =
  dt_year :: nat
  dt_month :: nat
  dt_day :: nat
  dt_hour :: nat
  dt_minute :: nat
  dt_second :: nat
  dt_microsecond :: nat

definition digit :: "nat \<Rightarrow> char" where
  "digit n = ''0123456789'' ! (n mod 10)"

definition pad2 :: "nat \<Rightarrow> string" where
  "pad2 n = [digit (n div 10), digit n]"

definition pad4 :: "nat \<Rightarrow> string" where
  "pad4 n = [digit (n div 1000), digit (n div 100), digit (n div 10), digit n]"

definition strftime :: "datetime \<Rightarrow> string" where
  "strftime t =
     pad4 (dt_year t) @ pad2 (dt_month t) @ pad2 (dt_day t) @ ''_'' @
     pad2 (dt_hour t) @ pad2 (dt_minute t) @ pad2 (dt_second t)"

definition is_leap :: "nat \<Rightarrow> bool" where
  "is_leap y = (y mod 4 = 0 \<and> (y mod 100 \<noteq> 0 \<or> y mod 400 = 0))"

definition days_before_year :: "nat \<Rightarrow> int" where
  "days_before_year y =
     (let p = int y - 1 in p * 365 + p div 4 - p div 100 + p div 400)"

definition days_before_month :: "nat \<Rightarrow> nat \<Rightarrow> int" where
  "days_before_month y m =
     int (sum_list (take (m - 1) [31, 28, 31, 30, 31, 30, 31, 31, 30, 31, 30, 31])) +
     (if m > 2 \<and> is_leap y then 1 else 0)"

definition to_micros :: "datetime \<Rightarrow> int" where
  "to_micros t =
     (((((days_before_year (dt_year t) + days_before_month (dt_year t) (dt_month t) +
          int (dt_day t)) * 24 + int (dt_hour t)) * 60 + int (dt_minute t)) * 60 +
        int (dt_second t)) * 1000000) + int (dt_microsecond t)"

definition total_seconds :: "datetime \<Rightarrow> datetime \<Rightarrow> rat" where
  "total_seconds end_time start_time =
     of_int (to_micros end_time - to_micros start_time) / 1000000"

section \<open>External capabilities and effects\<close>

text \<open>
  The browser (\<^verbatim>\<open>self.browser\<close>), the AI service, the wall clock and
  \<^verbatim>\<open>asyncio.sleep\<close> are outside the engine. They are functions on an abstract world
  \<open>'w\<close>; a call that raises returns \<open>Inl\<close> of the exception's \<^verbatim>\<open>str\<close>. The
  AI service returns dictionaries, as its annotations \<^verbatim>\<open>Dict[str, Any]\<close> say, and
  \<^verbatim>\<open>browser.text\<close> a string; the other calls may return any value. Python's
  \<^verbatim>\<open>str()\<close> of a value (used by the f-strings) is a parameter as well.
\<close>

record 'w env =
  py_str :: "pyval \<Rightarrow> string"
  clock_now :: "'w \<Rightarrow> datetime \<times> 'w"
  do_sleep :: "rat \<Rightarrow> 'w \<Rightarrow> 'w"
  b_goto :: "pyval \<Rightarrow> 'w \<Rightarrow> (string + unit) \<times> 'w"
  b_title :: "'w \<Rightarrow> (string + pyval) \<times> 'w"
  b_click :: "pyval \<Rightarrow> 'w \<Rightarrow> (string + unit) \<times> 'w"
  b_clear :: "pyval \<Rightarrow> 'w \<Rightarrow> (string + unit) \<times> 'w"
  b_type :: "pyval \<Rightarrow> pyval \<Rightarrow> 'w \<Rightarrow> (string + unit) \<times> 'w"
  b_text :: "pyval \<Rightarrow> 'w \<Rightarrow> (string + string) \<times> 'w"
  b_attribute :: "pyval \<Rightarrow> pyval \<Rightarrow> 'w \<Rightarrow> (string + pyval) \<times> 'w"
  b_text_all :: "pyval \<Rightarrow> 'w \<Rightarrow> (string + pyval) \<times> 'w"
  b_wait_for_element :: "pyval \<Rightarrow> pyval \<Rightarrow> 'w \<Rightarrow> (string + unit) \<times> 'w"
  b_wait_for_text :: "pyval \<Rightarrow> pyval \<Rightarrow> 'w \<Rightarrow> (string + unit) \<times> 'w"
  b_exists :: "pyval \<Rightarrow> 'w \<Rightarrow> (string + pyval) \<times> 'w"
  b_evaluate :: "pyval \<Rightarrow> 'w \<Rightarrow> (string + pyval) \<times> 'w"
  b_screenshot :: "string \<Rightarrow> 'w \<Rightarrow> (string + unit) \<times> 'w"
  ai_analyze_screenshot :: "string \<Rightarrow> string \<Rightarrow> 'w \<Rightarrow> (string + pydict) \<times> 'w"
  ai_generate_error_recovery_strategy ::
    "pyval \<Rightarrow> string \<Rightarrow> 'w \<Rightarrow> (string + pydict) \<times> 'w"

text \<open>
  The state of a run is the world together with the trace of what the engine has done to
  it, oldest first: every call of a browser or AI method, every sleep, and every entry
  into the dispatcher \<^verbatim>\<open>execute_workflow_step\<close>. The entry of a click also says
  how the call ended: \<open>True\<close> if \<^verbatim>\<open>browser.click\<close> returned, \<open>False\<close> if it raised.
  Reading the clock is not recorded.
\<close>

datatype event =
    Dispatch pydict
  | Sleep rat
  | Goto pyval
  | Title
  | Click pyval bool
  | Clear pyval
  | TypeText pyval pyval
  | Text pyval
  | Attribute pyval pyval
  | TextAll pyval
  | WaitForElement pyval pyval
  | WaitForText pyval pyval
  | Exists pyval
  | Evaluate pyval
  | Screenshot string
  | AnalyzeScreenshot string string
  | RecoveryAdvice pyval string

type_synonym 'w st = "'w \<times> event list"

text \<open>A computation that may raise: \<open>Inl\<close> carries \<^verbatim>\<open>str(e)\<close> of the exception.\<close>

type_synonym ('a, 'w) io = "'w st \<Rightarrow> (string + 'a) \<times> 'w st"

definition ret :: "'a \<Rightarrow> ('a, 'w) io" where
  "ret x = (\<lambda>s. (Inr x, s))"

definition lift :: "string + 'a \<Rightarrow> ('a, 'w) io" where
  "lift r = (\<lambda>s. (r, s))"

definition then_do :: "('a, 'w) io \<Rightarrow> ('a \<Rightarrow> ('b, 'w) io) \<Rightarrow> ('b, 'w) io" where
  "then_do m f = (\<lambda>s. case m s of (Inl e, s') \<Rightarrow> (Inl e, s') | (Inr x, s') \<Rightarrow> f x s')"

text \<open>\<^verbatim>\<open>try: m except Exception as e: return h(str(e))\<close>: the result never raises.\<close>

definition try_except :: "('a, 'w) io \<Rightarrow> (string \<Rightarrow> 'a) \<Rightarrow> 'w st \<Rightarrow> 'a \<times> 'w st" where
  "try_except m h = (\<lambda>s. case m s of (Inl e, s') \<Rightarrow> (h e, s') | (Inr x, s') \<Rightarrow> (x, s'))"

definition ok :: "('w st \<Rightarrow> 'a \<times> 'w st) \<Rightarrow> ('a, 'w) io" where
  "ok m = (\<lambda>s. case m s of (x, s') \<Rightarrow> (Inr x, s'))"

definition call :: "event \<Rightarrow> ('w \<Rightarrow> (string + 'a) \<times> 'w) \<Rightarrow> ('a, 'w) io" where
  "call ev f = (\<lambda>s. case f (fst s) of (r, w') \<Rightarrow> (r, (w', snd s @ [ev])))"

definition note_event :: "event \<Rightarrow> (unit, 'w) io" where
  "note_event ev = (\<lambda>s. (Inr (), (fst s, snd s @ [ev])))"

definition read_clock :: "'w env \<Rightarrow> (datetime, 'w) io" where
  "read_clock env = (\<lambda>s. case clock_now env (fst s) of (t, w') \<Rightarrow> (Inr t, (w', snd s)))"

definition sleep :: "'w env \<Rightarrow> rat \<Rightarrow> (unit, 'w) io" where
  "sleep env seconds = call (Sleep seconds) (\<lambda>w. (Inr (), do_sleep env seconds w))"

text \<open>\<^verbatim>\<open>await self.browser.click(locator)\<close>, recorded with its outcome.\<close>

definition click :: "'w env \<Rightarrow> pyval \<Rightarrow> (unit, 'w) io" where
  "click env locator =
     (\<lambda>s. case b_click env locator (fst s) of
            (Inl e, w') \<Rightarrow> (Inl e, (w', snd s @ [Click locator False]))
          | (Inr x, w') \<Rightarrow> (Inr x, (w', snd s @ [Click locator True])))"

text \<open>\<^verbatim>\<open>try: return m\<close> with \<^verbatim>\<open>except Exception: continue\<close>, as the body of a
  loop: a result is returned from the enclosing function, an exception moves on to the
  next element.\<close>

definition attempt :: "('a, 'w) io \<Rightarrow> ('a option, 'w) io" where
  "attempt m = (\<lambda>s. case m s of (Inl e, s') \<Rightarrow> (Inr None, s') | (Inr r, s') \<Rightarrow> (Inr (Some r), s'))"

text \<open>A \<^verbatim>\<open>for\<close> loop whose body may \<^verbatim>\<open>return\<close>: the body yields \<open>Some r\<close> to
  return \<open>r\<close> from the enclosing function and \<open>None\<close> to go on with the next element.\<close>

fun for_each :: "('x \<Rightarrow> ('a option, 'w) io) \<Rightarrow> 'x list \<Rightarrow> ('a option, 'w) io" where
  "for_each body [] s = (Inr None, s)"
| "for_each body (x # xs) s =
     (case body x s of
        (Inl e, s') \<Rightarrow> (Inl e, s')
      | (Inr (Some r), s') \<Rightarrow> (Inr (Some r), s')
      | (Inr None, s') \<Rightarrow> for_each body xs s')"

section \<open>The actions of the dispatcher\<close>

definition failure :: "string \<Rightarrow> pydict" where
  "failure e = [(''success'', PBool False), (''error'', PStr e)]"

definition take_screenshot :: "'w env \<Rightarrow> 'w st \<Rightarrow> string \<times> 'w st" where
  "take_screenshot env =
     try_except
       (then_do (read_clock env) (\<lambda>timestamp.
          let filepath = ''screenshots/screenshot_'' @ strftime timestamp @ ''.png'' in
          then_do (call (Screenshot filepath) (b_screenshot env filepath)) (\<lambda>_.
          ret filepath)))
       (\<lambda>e. [])"

definition navigate_to_url :: "'w env \<Rightarrow> pyval \<Rightarrow> pyval \<Rightarrow> 'w st \<Rightarrow> pydict \<times> 'w st" where
  "navigate_to_url env url parameters =
     try_except
       (then_do (call (Goto url) (b_goto env url)) (\<lambda>_.
        then_do (lift (py_get parameters ''wait_time'' (PInt 3000))) (\<lambda>wait_time.
        then_do (lift (py_gt_zero wait_time)) (\<lambda>positive.
        then_do (if positive then then_do (lift (py_div_1000 wait_time)) (sleep env)
                 else ret ()) (\<lambda>_.
        then_do (call Title (b_title env)) (\<lambda>title.
        then_do (ok (take_screenshot env)) (\<lambda>shot.
        ret [(''success'', PBool True),
             (''data'', PDict [(''url'', url), (''title'', title)]),
             (''screenshot'', PStr shot)])))))))
       failure"

definition ai_try_element ::
  "'w env \<Rightarrow> pyval \<Rightarrow> string \<Rightarrow> pyval \<Rightarrow> (pydict option, 'w) io" where
  "ai_try_element env element_description screenshot_path element =
     then_do (lift (py_lower element_description)) (\<lambda>wanted.
     then_do (lift (py_get element ''description'' (PStr []))) (\<lambda>description.
     then_do (lift (py_lower description)) (\<lambda>described.
     if contains described wanted then
       then_do (lift (py_get element ''selector'' PNone)) (\<lambda>selector.
       if truthy selector then
         attempt
           (then_do (click env selector) (\<lambda>_.
            ret [(''success'', PBool True),
                 (''data'', PDict [(''selector'', selector), (''ai_assisted'', PBool True)]),
                 (''screenshot'', PStr screenshot_path)]))
       else ret None)
     else ret None)))"

definition ai_assisted_click :: "'w env \<Rightarrow> pyval \<Rightarrow> pyval \<Rightarrow> 'w st \<Rightarrow> pydict \<times> 'w st" where
  "ai_assisted_click env element_description parameters =
     try_except
       (then_do (ok (take_screenshot env)) (\<lambda>screenshot_path.
        let task = ''Find and click element: '' @ py_str env element_description in
        then_do (call (AnalyzeScreenshot screenshot_path task)
                      (ai_analyze_screenshot env screenshot_path task)) (\<lambda>analysis.
        then_do (lift (py_iter (dict_get analysis ''identified_elements'' (PList []))))
          (\<lambda>identified_elements.
        then_do (for_each (ai_try_element env element_description screenshot_path)
                          identified_elements) (\<lambda>clicked.
        case clicked of
          Some r \<Rightarrow> ret r
        | None \<Rightarrow> ret (failure ''AI could not find the specified element''))))))
       failure"

definition click_try_selector :: "'w env \<Rightarrow> pyval \<Rightarrow> pyval \<Rightarrow> (pydict option, 'w) io" where
  "click_try_selector env parameters sel =
     attempt
       (then_do (click env sel) (\<lambda>_.
        then_do (lift (py_get parameters ''wait_time'' (PInt 1000))) (\<lambda>wait_time.
        then_do (lift (py_gt_zero wait_time)) (\<lambda>positive.
        then_do (if positive then then_do (lift (py_div_1000 wait_time)) (sleep env)
                 else ret ()) (\<lambda>_.
        then_do (ok (take_screenshot env)) (\<lambda>shot.
        ret [(''success'', PBool True),
             (''data'', PDict [(''selector'', sel), (''action'', PStr ''clicked'')]),
             (''screenshot'', PStr shot)]))))))"

definition click_element :: "'w env \<Rightarrow> pyval \<Rightarrow> pyval \<Rightarrow> 'w st \<Rightarrow> pydict \<times> 'w st" where
  "click_element env selector parameters =
     try_except
       (then_do (lift (py_get parameters ''fallback_selectors'' (PList []))) (\<lambda>fallbacks.
        then_do (lift (py_list_plus [selector] fallbacks)) (\<lambda>selectors.
        then_do (for_each (click_try_selector env parameters) selectors) (\<lambda>clicked.
        case clicked of
          Some r \<Rightarrow> ret r
        | None \<Rightarrow> ok (ai_assisted_click env selector parameters)))))
       failure"

definition fill_form :: "'w env \<Rightarrow> pyval \<Rightarrow> pyval \<Rightarrow> 'w st \<Rightarrow> pydict \<times> 'w st" where
  "fill_form env selector parameters =
     try_except
       (then_do (lift (py_get parameters ''value'' (PStr []))) (\<lambda>val.
        then_do (lift (py_get parameters ''clear_first'' (PBool True))) (\<lambda>clear_first.
        then_do (if truthy clear_first then call (Clear selector) (b_clear env selector)
                 else ret ()) (\<lambda>_.
        then_do (call (TypeText selector val) (b_type env selector val)) (\<lambda>_.
        then_do (ok (take_screenshot env)) (\<lambda>shot.
        ret [(''success'', PBool True),
             (''data'', PDict [(''selector'', selector), (''value'', val)]),
             (''screenshot'', PStr shot)]))))))
       failure"

definition browser_text :: "'w env \<Rightarrow> pyval \<Rightarrow> (pyval, 'w) io" where
  "browser_text env selector =
     then_do (call (Text selector) (b_text env selector)) (\<lambda>t. ret (PStr t))"

definition extract_data :: "'w env \<Rightarrow> pyval \<Rightarrow> pyval \<Rightarrow> 'w st \<Rightarrow> pydict \<times> 'w st" where
  "extract_data env selector parameters =
     try_except
       (then_do (lift (py_get parameters ''type'' (PStr ''text''))) (\<lambda>extraction_type.
        then_do
          (if extraction_type = PStr ''text'' then browser_text env selector
           else if extraction_type = PStr ''attribute'' then
             then_do (lift (py_get parameters ''attribute'' (PStr ''href''))) (\<lambda>attr.
             call (Attribute selector attr) (b_attribute env selector attr))
           else if extraction_type = PStr ''multiple'' then
             call (TextAll selector) (b_text_all env selector)
           else browser_text env selector) (\<lambda>extracted.
        then_do (ok (take_screenshot env)) (\<lambda>shot.
        ret [(''success'', PBool True),
             (''data'', PDict [(''selector'', selector), (''extracted_data'', extracted)]),
             (''screenshot'', PStr shot)]))))
       failure"

definition wait_action :: "'w env \<Rightarrow> pyval \<Rightarrow> pyval \<Rightarrow> 'w st \<Rightarrow> pydict \<times> 'w st" where
  "wait_action env condition parameters =
     try_except
       (then_do (lift (py_get parameters ''type'' (PStr ''time''))) (\<lambda>wait_type.
        then_do (lift (py_get parameters ''timeout'' (PInt 10000))) (\<lambda>timeout.
        then_do
          (if wait_type = PStr ''time'' then
             then_do (lift (py_div_1000 timeout)) (sleep env)
           else if wait_type = PStr ''element'' then
             call (WaitForElement condition timeout) (b_wait_for_element env condition timeout)
           else if wait_type = PStr ''text'' then
             call (WaitForText condition timeout) (b_wait_for_text env condition timeout)
           else ret ()) (\<lambda>_.
        then_do (ok (take_screenshot env)) (\<lambda>shot.
        ret [(''success'', PBool True),
             (''data'', PDict [(''condition'', condition), (''wait_type'', wait_type)]),
             (''screenshot'', PStr shot)])))))
       failure"

definition execute_conditional ::
  "'w env \<Rightarrow> pyval \<Rightarrow> pyval \<Rightarrow> pydict \<Rightarrow> 'w st \<Rightarrow> pydict \<times> 'w st" where
  "execute_conditional env condition parameters context =
     try_except
       (then_do (lift (py_get parameters ''type'' (PStr ''element_exists''))) (\<lambda>condition_type.
        then_do
          (if condition_type = PStr ''element_exists'' then
             call (Exists condition) (b_exists env condition)
           else if condition_type = PStr ''text_contains'' then
             then_do (call (Text condition) (b_text env condition)) (\<lambda>text.
             then_do (lift (py_get parameters ''search_text'' (PStr []))) (\<lambda>search_text.
             then_do (lift (py_in_str search_text text)) (\<lambda>found.
             ret (PBool found))))
           else if condition_type = PStr ''custom'' then
             then_do (lift (py_get parameters ''javascript'' (PStr []))) (\<lambda>js_code.
             call (Evaluate js_code) (b_evaluate env js_code))
           else ret (PBool False)) (\<lambda>result.
        then_do (ok (take_screenshot env)) (\<lambda>shot.
        ret [(''success'', PBool True),
             (''data'', PDict [(''condition'', condition), (''result'', result)]),
             (''screenshot'', PStr shot)]))))
       failure"

section \<open>The dispatcher: \<^verbatim>\<open>execute_workflow_step\<close>\<close>

definition initial_result :: "pydict \<Rightarrow> pydict" where
  "initial_result step =
     [(''step_number'', dict_get step ''step_number'' PNone),
      (''action_type'', dict_get step ''action_type'' PNone),
      (''success'', PBool False),
      (''data'', PNone),
      (''screenshot'', PNone),
      (''error'', PNone),
      (''duration'', PInt 0)]"

definition crashed_result :: "pydict \<Rightarrow> string \<Rightarrow> pydict" where
  "crashed_result step e =
     [(''step_number'', dict_get step ''step_number'' PNone),
      (''action_type'', dict_get step ''action_type'' PNone),
      (''success'', PBool False),
      (''error'', PStr e),
      (''duration'', PInt 0)]"

definition execute_workflow_step ::
  "'w env \<Rightarrow> pydict \<Rightarrow> pydict \<Rightarrow> 'w st \<Rightarrow> pydict \<times> 'w st" where
  "execute_workflow_step env step context =
     try_except
       (then_do (note_event (Dispatch step)) (\<lambda>_.
        let action_type = dict_get step ''action_type'' PNone;
            target = dict_get step ''target'' PNone;
            parameters = dict_get step ''parameters'' (PDict []);
            result = initial_result step
        in
        then_do (read_clock env) (\<lambda>start_time.
        then_do
          (if action_type = PStr ''navigate'' then ok (navigate_to_url env target parameters)
           else if action_type = PStr ''click'' then ok (click_element env target parameters)
           else if action_type = PStr ''fill'' then ok (fill_form env target parameters)
           else if action_type = PStr ''extract'' then ok (extract_data env target parameters)
           else if action_type = PStr ''wait'' then ok (wait_action env target parameters)
           else if action_type = PStr ''conditional'' then
             ok (execute_conditional env target parameters context)
           else ret (dict_set result ''error''
                       (PStr (''Unknown action type: '' @ py_str env action_type))))
          (\<lambda>result.
        then_do (read_clock env) (\<lambda>end_time.
        let result = dict_set result ''duration'' (PFloat (total_seconds end_time start_time))
        in
        then_do (lift (dict_index result ''success'')) (\<lambda>success.
        if truthy success then
          then_do (ok (take_screenshot env)) (\<lambda>shot.
          ret (dict_set result ''screenshot'' (PStr shot)))
        else ret result))))))
       (crashed_result step)"

section \<open>The recovery coordinator: \<^verbatim>\<open>_handle_step_failure\<close>\<close>

definition recovery_failed :: "'w env \<Rightarrow> pyval \<Rightarrow> pydict" where
  "recovery_failed env error_description =
     [(''success'', PBool False),
      (''error'', PStr (''Recovery failed: '' @ py_str env error_description)),
      (''recovery_attempted'', PBool True)]"

text \<open>
  The coordinator changes the step it is given: \<^verbatim>\<open>step["target"] = selector\<close> assigns
  into the dictionary that the caller's list \<^verbatim>\<open>workflow_steps\<close> holds. So the functions
  from here on return, next to their result, the step as they leave it. (The steps of a list
  are taken to be distinct objects, as they are in a list parsed from JSON.)

  The loop over \<^verbatim>\<open>fallback_selectors\<close> has the body
  \<^verbatim>\<open>try: step["target"] = selector; return await self.execute_workflow_step(step, context)\<close>
  with \<^verbatim>\<open>except Exception: continue\<close>. The dispatcher catches every exception itself,
  so the body returns at the first selector, whatever the result, and the rest of the list
  is never looked at.
\<close>

fun try_fallbacks ::
  "'w env \<Rightarrow> pydict \<Rightarrow> pydict \<Rightarrow> pyval list \<Rightarrow> 'w st \<Rightarrow> (pydict option \<times> pydict) \<times> 'w st"
  where
  "try_fallbacks env step context [] s = ((None, step), s)"
| "try_fallbacks env step context (selector # rest) s =
     (let step = dict_set step ''target'' selector in
      case execute_workflow_step env step context s of (r, s') \<Rightarrow> ((Some r, step), s'))"

text \<open>
  \<^verbatim>\<open>_handle_step_failure\<close> returns its result and the step as it leaves it. Whatever
  can raise comes before the assignment to \<^verbatim>\<open>step["target"]\<close>, so the handler of the
  outer \<^verbatim>\<open>try\<close> is reached with the step unchanged.
\<close>

definition handle_step_failure ::
  "'w env \<Rightarrow> pydict \<Rightarrow> pydict \<Rightarrow> pydict \<Rightarrow> 'w st \<Rightarrow> (pydict \<times> pydict) \<times> 'w st" where
  "handle_step_failure env step step_result context =
     try_except
       (let error_description = dict_get step_result ''error'' (PStr ''Unknown error'') in
        then_do (lift (dict_index step ''step_number'')) (\<lambda>step_number.
        let workflow_context =
              ''Step '' @ py_str env step_number @ '': '' @
              py_str env (dict_get step ''description'' (PStr []))
        in
        then_do (call (RecoveryAdvice error_description workflow_context)
                   (ai_generate_error_recovery_strategy env error_description workflow_context))
          (\<lambda>recovery_strategy.
        let recommended_action =
              dict_get recovery_strategy ''recommended_action'' (PStr ''manual_intervention'')
        in
        if recommended_action = PStr ''immediate_retry'' then
          then_do (sleep env 2) (\<lambda>_.
          then_do (ok (execute_workflow_step env step context)) (\<lambda>r.
          ret (r, step)))
        else
          then_do
            (if recommended_action = PStr ''alternative_approach'' then
               then_do (lift (py_get (dict_get step ''parameters'' (PDict []))
                                ''fallback_selectors'' (PList []))) (\<lambda>fallback_selectors.
               then_do (lift (py_iter fallback_selectors)) (\<lambda>selectors.
               ok (try_fallbacks env step context selectors)))
             else ret (None, step)) (\<lambda>(retried, step).
          case retried of
            Some r \<Rightarrow> ret (r, step)
          | None \<Rightarrow> ret (recovery_failed env error_description, step)))))
       (\<lambda>e. (failure e, step))"

section \<open>The workflow runner: \<^verbatim>\<open>execute_workflow\<close>\<close>

text \<open>
  One pass through the body of the \<^verbatim>\<open>for step in workflow_steps\<close> loop, in two
  parts. The first part is the dispatch of the step, the new entry of \<^verbatim>\<open>results\<close> and
  the update of the context; it ends with the test \<^verbatim>\<open>if not step_result["success"]\<close>
  and leaves the step as it is. The second part is the recovery, which may change the step.
  The pass returns what it raised or \<open>(stop, results, context)\<close>, where \<open>stop\<close> says
  whether the loop was left by \<^verbatim>\<open>break\<close>, together with the step as it leaves it.
\<close>

definition dispatch_and_record ::
  "'w env \<Rightarrow> pydict \<Rightarrow> pydict list \<Rightarrow> pydict \<Rightarrow>
   (pydict \<times> pydict list \<times> pydict \<times> bool, 'w) io" where
  "dispatch_and_record env step results context =
     then_do (ok (execute_workflow_step env step context)) (\<lambda>step_result.
     let results = results @ [step_result] in
     then_do (lift (dict_index step_result ''success'')) (\<lambda>success.
     then_do
       (if truthy success then
          then_do (lift (dict_index step_result ''data'')) (\<lambda>data.
          then_do (lift (dict_index step ''step_number'')) (\<lambda>step_number.
          ret (dict_set context (''step_'' @ py_str env step_number @ ''_result'') data)))
        else ret context) (\<lambda>context.
     then_do (lift (dict_index step_result ''success'')) (\<lambda>success.
     ret (step_result, results, context, \<not> truthy success)))))"

definition workflow_iteration ::
  "'w env \<Rightarrow> pydict \<Rightarrow> pydict list \<Rightarrow> pydict \<Rightarrow> 'w st \<Rightarrow>
   ((string + bool \<times> pydict list \<times> pydict) \<times> pydict) \<times> 'w st" where
  "workflow_iteration env step results context s =
     (case dispatch_and_record env step results context s of
        (Inl e, s') \<Rightarrow> ((Inl e, step), s')
      | (Inr (step_result, results, context, failed), s') \<Rightarrow>
          if failed then
            (case handle_step_failure env step step_result context s' of
               ((recovery_result, step), s'') \<Rightarrow>
                 (((case dict_index recovery_result ''success'' of
                      Inl e \<Rightarrow> Inl e
                    | Inr recovered \<Rightarrow>
                        if truthy recovered then
                          Inr (False, results[length results - 1 := recovery_result], context)
                        else Inr (True, results, context)),
                   step), s''))
          else ((Inr (False, results, context), step), s'))"

text \<open>The loop returns what it raised or the final \<open>(results, context)\<close>, together with
  the list \<^verbatim>\<open>workflow_steps\<close> as the run leaves it.\<close>

fun workflow_loop ::
  "'w env \<Rightarrow> pydict list \<Rightarrow> pydict list \<Rightarrow> pydict \<Rightarrow> 'w st \<Rightarrow>
   ((string + pydict list \<times> pydict) \<times> pydict list) \<times> 'w st" where
  "workflow_loop env [] results context s = ((Inr (results, context), []), s)"
| "workflow_loop env (step # rest) results context s =
     (case workflow_iteration env step results context s of
        ((Inl e, step'), s') \<Rightarrow> ((Inl e, step' # rest), s')
      | ((Inr (stop, results', context'), step'), s') \<Rightarrow>
          if stop then ((Inr (results', context'), step' # rest), s')
          else
            (case workflow_loop env rest results' context' s' of
               ((out, rest'), s'') \<Rightarrow> ((out, step' # rest'), s'')))"

text \<open>\<^verbatim>\<open>sum(1 for r in results if r["success"])\<close> and
  \<^verbatim>\<open>[r["screenshot"] for r in results if r["screenshot"]]\<close>: both subscript every
  result and raise KeyError on a result without the key.\<close>

fun count_successes :: "pydict list \<Rightarrow> string + nat" where
  "count_successes [] = Inr 0"
| "count_successes (r # rs) =
     (case dict_index r ''success'' of
        Inl e \<Rightarrow> Inl e
      | Inr v \<Rightarrow>
          (case count_successes rs of
             Inl e \<Rightarrow> Inl e
           | Inr n \<Rightarrow> Inr (if truthy v then n + 1 else n)))"

fun collect_screenshots :: "pydict list \<Rightarrow> string + pyval list" where
  "collect_screenshots [] = Inr []"
| "collect_screenshots (r # rs) =
     (case dict_index r ''screenshot'' of
        Inl e \<Rightarrow> Inl e
      | Inr v \<Rightarrow>
          (case collect_screenshots rs of
             Inl e \<Rightarrow> Inl e
           | Inr shots \<Rightarrow> Inr (if truthy v then v # shots else shots)))"

definition error_report :: "pydict list \<Rightarrow> string \<Rightarrow> pydict" where
  "error_report workflow_steps e =
     [(''workflow_success'', PBool False),
      (''error'', PStr e),
      (''steps_completed'', PInt 0),
      (''total_steps'', PInt (int (length workflow_steps))),
      (''step_results'', PList [])]"

text \<open>
  \<^verbatim>\<open>execute_workflow\<close> returns the report and the list \<^verbatim>\<open>workflow_steps\<close> as the
  run leaves it. The context is \<^verbatim>\<open>context or {}\<close>: a new dictionary unless the caller
  passes a non-empty one (the caller in \<^verbatim>\<open>api/workflows.py\<close> passes none), and the
  \<^verbatim>\<open>context\<close> entry of the report is that dictionary after the run. What the loop
  raises and what the aggregation raises reach the same handler.
\<close>

definition make_report :: "pydict list \<Rightarrow> pydict list \<times> pydict \<Rightarrow> (pydict, 'w) io" where
  "make_report workflow_steps = (\<lambda>(results, context).
     then_do (lift (count_successes results)) (\<lambda>successful_steps.
     let total_steps = length results in
     then_do (lift (collect_screenshots results)) (\<lambda>screenshots.
     ret [(''workflow_success'', PBool (successful_steps = total_steps)),
          (''steps_completed'', PInt (int successful_steps)),
          (''total_steps'', PInt (int total_steps)),
          (''step_results'', PList (map PDict results)),
          (''context'', PDict context),
          (''screenshots'', PList screenshots)])))"

definition execute_workflow ::
  "'w env \<Rightarrow> pydict list \<Rightarrow> pydict option \<Rightarrow> 'w st \<Rightarrow> (pydict \<times> pydict list) \<times> 'w st" where
  "execute_workflow env workflow_steps context s =
     (case workflow_loop env workflow_steps []
             (case context of None \<Rightarrow> [] | Some c \<Rightarrow> c) s of
        ((looped, steps_after), s') \<Rightarrow>
          (case try_except (then_do (lift looped) (make_report workflow_steps))
                  (error_report workflow_steps) s' of
             (report, s'') \<Rightarrow> ((report, steps_after), s'')))"

section \<open>A scripted browser, advisor and clock for the examples\<close>

text \<open>
  The examples run the engine against a fake world. The world is a clock, counted in
  seconds since 2024-01-01 00:00:00 and advanced by one second at every reading. The
  browser fails \<^verbatim>\<open>click\<close>, \<^verbatim>\<open>clear\<close>, \<^verbatim>\<open>type\<close> and \<^verbatim>\<open>text\<close> on the
  locators listed in \<open>broken\<close> and succeeds everywhere else; the recovery advisor always
  recommends \<open>advice\<close>; the vision advisor identifies no element. \<^verbatim>\<open>str()\<close> is
  exact on \<^verbatim>\<open>None\<close>, booleans, integers and strings, the only values the examples
  format.
\<close>

fun digits_of :: "nat \<Rightarrow> string" where
  "digits_of n = (if n < 10 then [digit n] else digits_of (n div 10) @ [digit n])"

declare digits_of.simps [simp del]

fun example_str :: "pyval \<Rightarrow> string" where
  "example_str PNone = ''None''"
| "example_str (PBool b) = (if b then ''True'' else ''False'')"
| "example_str (PInt n) = (if n < 0 then ''-'' @ digits_of (nat (- n)) else digits_of (nat n))"
| "example_str (PStr s) = s"
| "example_str (PFloat q) = ''<float>''"
| "example_str (PList xs) = ''<list>''"
| "example_str (PDict d) = ''<dict>''"

definition example_time :: "nat \<Rightarrow> datetime" where
  "example_time n =
     \<lparr>dt_year = 2024, dt_month = 1, dt_day = 1, dt_hour = n div 3600,
      dt_minute = n div 60 mod 60, dt_second = n mod 60, dt_microsecond = 0\<rparr>"

definition unless_broken :: "pyval list \<Rightarrow> pyval \<Rightarrow> 'a \<Rightarrow> nat \<Rightarrow> (string + 'a) \<times> nat" where
  "unless_broken broken locator x w =
     (if locator \<in> set broken then (Inl ''no such element'', w) else (Inr x, w))"

definition example_env :: "pyval list \<Rightarrow> string \<Rightarrow> nat env" where
  "example_env broken advice =
     \<lparr>py_str = example_str,
      clock_now = (\<lambda>w. (example_time w, w + 1)),
      do_sleep = (\<lambda>seconds w. w),
      b_goto = (\<lambda>url w. (Inr (), w)),
      b_title = (\<lambda>w. (Inr (PStr ''Example''), w)),
      b_click = (\<lambda>locator. unless_broken broken locator ()),
      b_clear = (\<lambda>locator. unless_broken broken locator ()),
      b_type = (\<lambda>locator text. unless_broken broken locator ()),
      b_text = (\<lambda>locator. unless_broken broken locator ''some text''),
      b_attribute = (\<lambda>locator name w. (Inr (PStr ''value''), w)),
      b_text_all = (\<lambda>locator w. (Inr (PList [PStr ''some text'']), w)),
      b_wait_for_element = (\<lambda>locator timeout w. (Inr (), w)),
      b_wait_for_text = (\<lambda>text timeout w. (Inr (), w)),
      b_exists = (\<lambda>locator w. (Inr (PBool (locator \<notin> set broken)), w)),
      b_evaluate = (\<lambda>script w. (Inr PNone, w)),
      b_screenshot = (\<lambda>path w. (Inr (), w)),
      ai_analyze_screenshot = (\<lambda>path task w. (Inr [(''identified_elements'', PList [])], w)),
      ai_generate_error_recovery_strategy =
        (\<lambda>error_description workflow_context w.
           (Inr [(''recommended_action'', PStr advice)], w))\<rparr>"

definition mk_step :: "int \<Rightarrow> string \<Rightarrow> string \<Rightarrow> pydict \<Rightarrow> pydict" where
  "mk_step n action_type target parameters =
     [(''step_number'', PInt n),
      (''action_type'', PStr action_type),
      (''description'', PStr []),
      (''target'', PStr target),
      (''parameters'', PDict parameters)]"

text \<open>A fill step with the single fallback \<^verbatim>\<open>#b\<close>, and the screenshot path that the
  example clock gives at reading \<open>w\<close>.\<close>

definition fill_step :: "string \<Rightarrow> pydict" where
  "fill_step target = mk_step 1 ''fill'' target [(''fallback_selectors'', PList [PStr ''#b''])]"

definition shot :: "nat \<Rightarrow> string" where
  "shot w = ''screenshots/screenshot_'' @ strftime (example_time w) @ ''.png''"

section \<open>Vocabulary of the properties\<close>

subsection \<open>Reports and results\<close>

text \<open>A step result counts as successful when its \<^verbatim>\<open>success\<close> entry is truthy.\<close>

definition succeeded :: "pydict \<Rightarrow> bool" where
  "succeeded r = truthy (dict_get r ''success'' PNone)"

text \<open>The \<^verbatim>\<open>step_results\<close> list of a report.\<close>

definition step_results_of :: "pydict \<Rightarrow> pydict list" where
  "step_results_of report =
     (case dict_get report ''step_results'' PNone of
        PList rs \<Rightarrow> concat (map (\<lambda>v. case v of PDict d \<Rightarrow> [d] | _ \<Rightarrow> []) rs)
      | _ \<Rightarrow> [])"

text \<open>The action types that \<^verbatim>\<open>execute_workflow_step\<close> dispatches on.\<close>

definition recognized_actions :: "pyval list" where
  "recognized_actions =
     [PStr ''navigate'', PStr ''click'', PStr ''fill'', PStr ''extract'', PStr ''wait'',
      PStr ''conditional'']"

text \<open>The result of the dispatcher for a step of an unknown action type, with the
  duration \<open>t\<close>: the initial result with its \<^verbatim>\<open>error\<close> entry set.\<close>

definition unknown_action_result :: "'w env \<Rightarrow> pydict \<Rightarrow> rat \<Rightarrow> pydict" where
  "unknown_action_result env step t =
     [(''step_number'', dict_get step ''step_number'' PNone),
      (''action_type'', dict_get step ''action_type'' PNone),
      (''success'', PBool False),
      (''data'', PNone),
      (''screenshot'', PNone),
      (''error'', PStr (''Unknown action type: '' @
                      py_str env (dict_get step ''action_type'' PNone))),
      (''duration'', PFloat t)]"

text \<open>
  The results that the functions of the engine can return: \<open>action_result\<close> for the six
  actions, \<open>dispatch_result\<close> for \<^verbatim>\<open>execute_workflow_step\<close> (a successful action, a
  failed action, an unknown action type, or the dispatcher's own exception handler) and
  \<open>recovery_result\<close> for \<^verbatim>\<open>_handle_step_failure\<close>. \<open>yields Q m\<close> and \<open>always Q m\<close>
  say that every normal result of \<open>m\<close> satisfies \<open>Q\<close>.
\<close>

definition action_result :: "pydict \<Rightarrow> bool" where
  "action_result r =
     ((\<exists>d p. r = [(''success'', PBool True), (''data'', d), (''screenshot'', PStr p)]) \<or>
      (\<exists>e. r = failure e))"

definition dispatch_result :: "pydict \<Rightarrow> bool" where
  "dispatch_result r =
     ((\<exists>d p t. r = [(''success'', PBool True), (''data'', d), (''screenshot'', PStr p),
                    (''duration'', PFloat t)]) \<or>
      (\<exists>e t. r = [(''success'', PBool False), (''error'', PStr e), (''duration'', PFloat t)]) \<or>
      (\<exists>n a e t. r = [(''step_number'', n), (''action_type'', a), (''success'', PBool False),
                      (''data'', PNone), (''screenshot'', PNone), (''error'', PStr e),
                      (''duration'', PFloat t)]) \<or>
      (\<exists>n a e. r = [(''step_number'', n), (''action_type'', a), (''success'', PBool False),
                    (''error'', PStr e), (''duration'', PInt 0)]))"

definition recovery_result :: "pydict \<Rightarrow> bool" where
  "recovery_result r =
     (dispatch_result r \<or>
      (\<exists>e. r = failure e) \<or>
      (\<exists>e. r = [(''success'', PBool False), (''error'', PStr e),
                 (''recovery_attempted'', PBool True)]))"

definition pred_opt :: "('a \<Rightarrow> bool) \<Rightarrow> 'a option \<Rightarrow> bool" where
  "pred_opt Q v = (case v of None \<Rightarrow> True | Some r \<Rightarrow> Q r)"

definition yields :: "('a \<Rightarrow> bool) \<Rightarrow> ('a, 'w) io \<Rightarrow> bool" where
  "yields Q m = (\<forall>s. case fst (m s) of Inl e \<Rightarrow> True | Inr v \<Rightarrow> Q v)"

definition always :: "('a \<Rightarrow> bool) \<Rightarrow> ('w st \<Rightarrow> 'a \<times> 'w st) \<Rightarrow> bool" where
  "always Q m = (\<forall>s. Q (fst (m s)))"

subsection \<open>Traces\<close>

text \<open>\<open>emits P m\<close>: running \<open>m\<close> only appends to the trace, and only events that
  satisfy \<open>P\<close>.\<close>

definition emits :: "(event \<Rightarrow> bool) \<Rightarrow> ('w st \<Rightarrow> 'r \<times> 'w st) \<Rightarrow> bool" where
  "emits P m = (\<forall>s. \<exists>delta. snd (snd (m s)) = snd s @ delta \<and> list_all P delta)"

fun is_dispatch :: "event \<Rightarrow> bool" where
  "is_dispatch (Dispatch step) = True"
| "is_dispatch ev = False"

fun is_advice :: "event \<Rightarrow> bool" where
  "is_advice (RecoveryAdvice e c) = True"
| "is_advice ev = False"

text \<open>Events of the browser, the vision advisor and the sleeps: everything but the entries
  into the dispatcher and the consultations of the recovery advisor.\<close>

definition plain :: "event \<Rightarrow> bool" where
  "plain ev = (\<not> is_dispatch ev \<and> \<not> is_advice ev)"

definition dispatches :: "event list \<Rightarrow> nat" where
  "dispatches tr = length (filter is_dispatch tr)"

definition advisor_calls :: "event list \<Rightarrow> nat" where
  "advisor_calls tr = length (filter is_advice tr)"

text \<open>The locators passed to \<^verbatim>\<open>browser.click\<close>, in the order of the calls.\<close>

fun clicks :: "event list \<Rightarrow> pyval list" where
  "clicks [] = []"
| "clicks (Click locator returned # tr) = locator # clicks tr"
| "clicks (ev # tr) = clicks tr"

text \<open>The steps that entered the dispatcher, in the order of the entries.\<close>

fun dispatched :: "event list \<Rightarrow> pydict list" where
  "dispatched [] = []"
| "dispatched (Dispatch step # tr) = step # dispatched tr"
| "dispatched (ev # tr) = dispatched tr"

text \<open>\<open>retargeted step d\<close>: \<open>d\<close> is \<open>step\<close> after an assignment to its \<^verbatim>\<open>target\<close>.
  \<open>retry_of step d\<close>: \<open>d\<close> is \<open>step\<close> itself or \<open>step\<close> with another target.\<close>

definition retargeted :: "pydict \<Rightarrow> pydict \<Rightarrow> bool" where
  "retargeted step d = (d = dict_set step ''target'' (dict_get d ''target'' PNone))"

definition retry_of :: "pydict \<Rightarrow> pydict \<Rightarrow> bool" where
  "retry_of step d = (d = step \<or> retargeted step d)"

text \<open>
  The trace of one step of a run. \<open>step_segment step seg\<close>: the segment starts with the
  dispatch of \<open>step\<close>, followed by plain events only, or by plain events, one consultation
  of the recovery advisor and what \<open>after_advice\<close> allows: nothing, or a sleep of 2 seconds
  and one more dispatch of \<open>step\<close> with plain events, or one dispatch of \<open>step\<close> with
  another target with plain events.
\<close>

definition after_advice :: "pydict \<Rightarrow> event list \<Rightarrow> bool" where
  "after_advice step rec =
     (case rec of
        [] \<Rightarrow> True
      | Sleep q # later \<Rightarrow>
          q = 2 \<and> take 1 later = [Dispatch step] \<and> list_all plain (drop 1 later)
      | Dispatch d # later \<Rightarrow> retargeted step d \<and> list_all plain later
      | _ \<Rightarrow> False)"

definition step_segment :: "pydict \<Rightarrow> event list \<Rightarrow> bool" where
  "step_segment step seg =
     (take 1 seg = [Dispatch step] \<and>
      (case dropWhile plain (drop 1 seg) of
         [] \<Rightarrow> True
       | RecoveryAdvice e c # rec \<Rightarrow> after_advice step rec
       | _ \<Rightarrow> False))"

text \<open>
  \<open>in_list_order steps ds\<close>: the dispatched steps \<open>ds\<close> are the steps of a prefix of the
  list, one after the other in the order of the list, each dispatched once or followed by
  one retry of itself. \<open>all_in_list_order\<close>: the same with the whole list for the prefix.
\<close>

fun in_list_order :: "pydict list \<Rightarrow> pydict list \<Rightarrow> bool" where
  "in_list_order steps [] = True"
| "in_list_order [] (d # ds) = False"
| "in_list_order (step # rest) (d # ds) =
     (d = step \<and>
      (in_list_order rest ds \<or>
       (case ds of [] \<Rightarrow> False | d' # ds' \<Rightarrow> retry_of step d' \<and> in_list_order rest ds')))"

fun all_in_list_order :: "pydict list \<Rightarrow> pydict list \<Rightarrow> bool" where
  "all_in_list_order [] ds = (ds = [])"
| "all_in_list_order (step # rest) [] = False"
| "all_in_list_order (step # rest) (d # ds) =
     (d = step \<and>
      (all_in_list_order rest ds \<or>
       (case ds of [] \<Rightarrow> False | d' # ds' \<Rightarrow> retry_of step d' \<and> all_in_list_order rest ds')))"

text \<open>What \<^verbatim>\<open>_handle_step_failure\<close> passes to the recovery advisor: the error of the
  failed result and the description of the step.\<close>

abbreviation error_of :: "pydict \<Rightarrow> pyval" where
  "error_of step_result \<equiv> dict_get step_result ''error'' (PStr ''Unknown error'')"

abbreviation step_context :: "'w env \<Rightarrow> pydict \<Rightarrow> pyval \<Rightarrow> string" where
  "step_context env step n \<equiv>
     ''Step '' @ py_str env n @ '': '' @ py_str env (dict_get step ''description'' (PStr []))"

text \<open>
  What recovery does after the advisor has answered, as far as the dispatcher is
  concerned. \<open>fallbacks_of step\<close> are the selectors that the loop
  \<^verbatim>\<open>for selector in step.get("parameters", {}).get("fallback_selectors", [])\<close> runs
  through (none if it raises). \<open>retry_events step answer\<close>: under the advice
  \<^verbatim>\<open>immediate_retry\<close> a sleep of 2 seconds and a dispatch of the step; under the advice
  \<^verbatim>\<open>alternative_approach\<close> a dispatch of the step with its first fallback selector for
  target, if it has one; nothing otherwise, and nothing if the advisor raised.
\<close>

definition fallbacks_of :: "pydict \<Rightarrow> pyval list" where
  "fallbacks_of step =
     (case py_get (dict_get step ''parameters'' (PDict [])) ''fallback_selectors'' (PList []) of
        Inl e \<Rightarrow> []
      | Inr v \<Rightarrow> (case py_iter v of Inl e \<Rightarrow> [] | Inr selectors \<Rightarrow> selectors))"

definition advised :: "pydict \<Rightarrow> pyval" where
  "advised strategy = dict_get strategy ''recommended_action'' (PStr ''manual_intervention'')"

definition retry_events :: "pydict \<Rightarrow> string + pydict \<Rightarrow> event list" where
  "retry_events step answer =
     (case answer of
        Inl e \<Rightarrow> []
      | Inr strategy \<Rightarrow>
          if advised strategy = PStr ''immediate_retry'' then [Sleep 2, Dispatch step]
          else if advised strategy = PStr ''alternative_approach'' then
            (case fallbacks_of step of
               [] \<Rightarrow> []
             | selector # rest \<Rightarrow> [Dispatch (dict_set step ''target'' selector)])
          else [])"

subsection \<open>Two runs at different times\<close>

text \<open>
  \<open>R\<close> relates the worlds of two runs: what the browser and the advisors can observe is
  the same in both, the clock may differ. \<open>blind_op R f g\<close>: from related worlds, the calls
  \<open>f\<close> and \<open>g\<close> answer alike and lead to related worlds. \<open>clock_blind env R\<close>: reading the
  clock and sleeping keep the worlds related, every browser and advisor call is blind to
  the difference, and neither the outcome of \<^verbatim>\<open>browser.screenshot\<close> nor the answer of
  the vision advisor depends on the name of the screenshot file.
\<close>

definition blind_op ::
  "('w \<Rightarrow> 'w \<Rightarrow> bool) \<Rightarrow> ('w \<Rightarrow> 'a \<times> 'w) \<Rightarrow> ('w \<Rightarrow> 'a \<times> 'w) \<Rightarrow> bool" where
  "blind_op R f g =
     (\<forall>w1 w2. R w1 w2 \<longrightarrow> fst (f w1) = fst (g w2) \<and> R (snd (f w1)) (snd (g w2)))"

definition clock_blind :: "'w env \<Rightarrow> ('w \<Rightarrow> 'w \<Rightarrow> bool) \<Rightarrow> bool" where
  "clock_blind env R =
     ((\<forall>w1 w2. R w1 w2 \<longrightarrow> R (snd (clock_now env w1)) (snd (clock_now env w2))) \<and>
      (\<forall>q w1 w2. R w1 w2 \<longrightarrow> R (do_sleep env q w1) (do_sleep env q w2)) \<and>
      (\<forall>p1 p2 w1 w2. R w1 w2 \<longrightarrow>
         isl (fst (b_screenshot env p1 w1)) = isl (fst (b_screenshot env p2 w2)) \<and>
         R (snd (b_screenshot env p1 w1)) (snd (b_screenshot env p2 w2))) \<and>
      (\<forall>p1 p2 task.
         blind_op R (ai_analyze_screenshot env p1 task) (ai_analyze_screenshot env p2 task)) \<and>
      (\<forall>e c. blind_op R (ai_generate_error_recovery_strategy env e c)
                 (ai_generate_error_recovery_strategy env e c)) \<and>
      (\<forall>x. blind_op R (b_goto env x) (b_goto env x)) \<and>
      blind_op R (b_title env) (b_title env) \<and>
      (\<forall>x. blind_op R (b_click env x) (b_click env x)) \<and>
      (\<forall>x. blind_op R (b_clear env x) (b_clear env x)) \<and>
      (\<forall>x y. blind_op R (b_type env x y) (b_type env x y)) \<and>
      (\<forall>x. blind_op R (b_text env x) (b_text env x)) \<and>
      (\<forall>x y. blind_op R (b_attribute env x y) (b_attribute env x y)) \<and>
      (\<forall>x. blind_op R (b_text_all env x) (b_text_all env x)) \<and>
      (\<forall>x y. blind_op R (b_wait_for_element env x y) (b_wait_for_element env x y)) \<and>
      (\<forall>x y. blind_op R (b_wait_for_text env x y) (b_wait_for_text env x y)) \<and>
      (\<forall>x. blind_op R (b_exists env x) (b_exists env x)) \<and>
      (\<forall>x. blind_op R (b_evaluate env x) (b_evaluate env x)))"

text \<open>\<open>related R Q m1 m2\<close>: from related worlds, \<open>m1\<close> and \<open>m2\<close> return results related
  by \<open>Q\<close> and leave related worlds.\<close>

definition related ::
  "('w \<Rightarrow> 'w \<Rightarrow> bool) \<Rightarrow> ('a \<Rightarrow> 'a \<Rightarrow> bool) \<Rightarrow>
   ('w st \<Rightarrow> 'a \<times> 'w st) \<Rightarrow> ('w st \<Rightarrow> 'a \<times> 'w st) \<Rightarrow> bool" where
  "related R Q m1 m2 =
     (\<forall>s1 s2. R (fst s1) (fst s2) \<longrightarrow>
        Q (fst (m1 s1)) (fst (m2 s2)) \<and> R (fst (snd (m1 s1))) (fst (snd (m2 s2))))"

text \<open>
  What is left of a step result when the clock's traces are erased: the value of
  \<^verbatim>\<open>duration\<close> is dropped, and of the value of \<^verbatim>\<open>screenshot\<close> only its truthiness is
  kept (a file name or not). Keys and their order stay. Two results are similar when they
  are equal after that; two screenshot paths are similar when both or none are empty.
\<close>

definition erase_entry :: "string \<times> pyval \<Rightarrow> string \<times> pyval" where
  "erase_entry kv =
     (fst kv,
      if fst kv = ''screenshot'' then PBool (truthy (snd kv))
      else if fst kv = ''duration'' then PNone
      else snd kv)"

definition erase_result :: "pydict \<Rightarrow> pydict" where
  "erase_result r = map erase_entry r"

definition sim_res :: "pydict \<Rightarrow> pydict \<Rightarrow> bool" where
  "sim_res r1 r2 = (erase_result r1 = erase_result r2)"

definition sim_str :: "string \<Rightarrow> string \<Rightarrow> bool" where
  "sim_str p1 p2 = ((p1 = []) = (p2 = []))"

definition any_two :: "'a \<Rightarrow> 'a \<Rightarrow> bool" where
  "any_two x y = True"

text \<open>
  The same for a report: every entry of \<^verbatim>\<open>step_results\<close> is erased as above, and of the
  \<^verbatim>\<open>screenshots\<close> list only the length is kept. All other entries
  (\<^verbatim>\<open>workflow_success\<close>, \<^verbatim>\<open>steps_completed\<close>, \<^verbatim>\<open>total_steps\<close>, \<^verbatim>\<open>context\<close>,
  \<^verbatim>\<open>error\<close>) stay as they are.
\<close>

fun erase_value :: "pyval \<Rightarrow> pyval" where
  "erase_value (PDict d) = PDict (erase_result d)"
| "erase_value v = v"

definition erase_report_entry :: "string \<times> pyval \<Rightarrow> string \<times> pyval" where
  "erase_report_entry kv =
     (fst kv,
      if fst kv = ''step_results'' then
        (case snd kv of PList rs \<Rightarrow> PList (map erase_value rs) | v \<Rightarrow> v)
      else if fst kv = ''screenshots'' then
        (case snd kv of PList shots \<Rightarrow> PInt (int (length shots)) | v \<Rightarrow> v)
      else snd kv)"

definition erase_report :: "pydict \<Rightarrow> pydict" where
  "erase_report report = map erase_report_entry report"

section \<open>Running the combinators\<close>

lemma ret_apply: "ret x s = (Inr x, s)"
  by (simp add: ret_def)

lemma lift_apply: "lift r s = (r, s)"
  by (simp add: lift_def)

lemma then_do_apply:
  "then_do m f s = (case m s of (Inl e, s') \<Rightarrow> (Inl e, s') | (Inr x, s') \<Rightarrow> f x s')"
  by (simp add: then_do_def)

lemma try_except_apply:
  "try_except m h s = (case m s of (Inl e, s') \<Rightarrow> (h e, s') | (Inr x, s') \<Rightarrow> (x, s'))"
  by (simp add: try_except_def)

lemma ok_apply: "ok m s = (case m s of (x, s') \<Rightarrow> (Inr x, s'))"
  by (simp add: ok_def)

lemma attempt_apply:
  "attempt m s =
     (case m s of (Inl e, s') \<Rightarrow> (Inr None, s') | (Inr r, s') \<Rightarrow> (Inr (Some r), s'))"
  by (simp add: attempt_def)

lemma call_apply: "call ev f (w, tr) = (case f w of (r, w') \<Rightarrow> (r, (w', tr @ [ev])))"
  by (simp add: call_def)

lemma note_event_apply: "note_event ev (w, tr) = (Inr (), (w, tr @ [ev]))"
  by (simp add: note_event_def)

lemma read_clock_apply:
  "read_clock env (w, tr) = (case clock_now env w of (t, w') \<Rightarrow> (Inr t, (w', tr)))"
  by (simp add: read_clock_def)

lemma sleep_apply: "sleep env q (w, tr) = (Inr (), (do_sleep env q w, tr @ [Sleep q]))"
  by (simp add: sleep_def call_def)

lemma click_apply:
  "click env locator (w, tr) =
     (case b_click env locator w of
        (Inl e, w') \<Rightarrow> (Inl e, (w', tr @ [Click locator False]))
      | (Inr x, w') \<Rightarrow> (Inr x, (w', tr @ [Click locator True])))"
  by (simp add: click_def split: prod.splits sum.splits)

lemmas io_apply = ret_apply lift_apply then_do_apply try_except_apply ok_apply attempt_apply
  call_apply note_event_apply read_clock_apply sleep_apply click_apply

section \<open>The counts of the report\<close>

lemma count_successes_sound:
  "count_successes rs = Inr n \<Longrightarrow> n = length (filter succeeded rs) \<and> n \<le> length rs"
proof (induction rs arbitrary: n)
  case Nil
  then show ?case by simp
next
  case (Cons r rs)
  from Cons.prems obtain v m where
    v: "dict_index r ''success'' = Inr v" and m: "count_successes rs = Inr m"
    and n: "n = (if truthy v then m + 1 else m)"
    by (auto split: sum.splits)
  from v have "succeeded r = truthy v"
    by (auto simp: dict_index_def succeeded_def dict_get_def split: option.splits)
  with Cons.IH[OF m] n show ?case by simp
qed

lemma step_results_of_report:
  "map_of report ''step_results'' = Some (PList (map PDict rs)) \<Longrightarrow> step_results_of report = rs"
  by (induction rs) (simp_all add: step_results_of_def dict_get_def comp_def)

lemma execute_workflow_unfold:
  "execute_workflow env workflow_steps context s =
     (case workflow_loop env workflow_steps [] (case context of None \<Rightarrow> [] | Some c \<Rightarrow> c) s of
        ((Inl e, steps_after), s') \<Rightarrow> ((error_report workflow_steps e, steps_after), s')
      | ((Inr (results, ctx), steps_after), s') \<Rightarrow>
          (case count_successes results of
             Inl e \<Rightarrow> ((error_report workflow_steps e, steps_after), s')
           | Inr n \<Rightarrow>
               (case collect_screenshots results of
                  Inl e \<Rightarrow> ((error_report workflow_steps e, steps_after), s')
                | Inr shots \<Rightarrow>
                    (([(''workflow_success'', PBool (n = length results)),
                       (''steps_completed'', PInt (int n)),
                       (''total_steps'', PInt (int (length results))),
                       (''step_results'', PList (map PDict results)),
                       (''context'', PDict ctx),
                       (''screenshots'', PList shots)], steps_after), s'))))"
  by (simp add: execute_workflow_def make_report_def io_apply Let_def
      split: prod.splits sum.splits)

lemma execute_workflow_cases:
  "(\<exists>e. workflow_steps \<noteq> [] \<and>
        fst (fst (execute_workflow env workflow_steps context s)) =
          error_report workflow_steps e) \<or>
   (\<exists>results ctx n shots.
        count_successes results = Inr n \<and>
        fst (fst (execute_workflow env workflow_steps context s)) =
          [(''workflow_success'', PBool (n = length results)),
           (''steps_completed'', PInt (int n)),
           (''total_steps'', PInt (int (length results))),
           (''step_results'', PList (map PDict results)),
           (''context'', PDict ctx),
           (''screenshots'', PList shots)])"
proof (cases workflow_steps)
  case Nil
  then show ?thesis
    by (simp add: execute_workflow_unfold)
next
  case (Cons step rest)
  then have "workflow_steps \<noteq> []" by simp
  then show ?thesis
    unfolding execute_workflow_unfold
    by (auto split: prod.splits sum.splits)
qed

section \<open>What a computation appends to the trace\<close>

lemma emitsI: "(\<And>s. \<exists>delta. snd (snd (m s)) = snd s @ delta \<and> list_all P delta) \<Longrightarrow> emits P m"
  unfolding emits_def by blast

lemma emitsD: "emits P m \<Longrightarrow> \<exists>delta. snd (snd (m s)) = snd s @ delta \<and> list_all P delta"
  unfolding emits_def by blast

lemma emits_ret: "emits P (ret x)"
  by (simp add: emits_def ret_def)

lemma emits_lift: "emits P (lift r)"
  by (simp add: emits_def lift_def)

lemma emits_call: "P ev \<Longrightarrow> emits P (call ev f)"
  by (simp add: emits_def call_def split: prod.splits)

lemma emits_read_clock: "emits P (read_clock env)"
  by (simp add: emits_def read_clock_def split: prod.splits)

lemma emits_sleep: "P (Sleep q) \<Longrightarrow> emits P (sleep env q)"
  by (simp add: sleep_def emits_call)

lemma emits_click_op: "P (Click locator False) \<Longrightarrow> P (Click locator True) \<Longrightarrow> emits P (click env locator)"
  by (simp add: emits_def click_def split: prod.splits sum.splits)

lemma emits_then_do:
  assumes "emits P m" and "\<And>x. emits P (f x)"
  shows "emits P (then_do m f)"
proof (rule emitsI)
  fix s
  obtain r s1 where ms: "m s = (r, s1)" by (cases "m s")
  from emitsD[OF assms(1), of s] ms obtain d1 where d1: "snd s1 = snd s @ d1" "list_all P d1"
    by auto
  show "\<exists>delta. snd (snd (then_do m f s)) = snd s @ delta \<and> list_all P delta"
  proof (cases r)
    case (Inl e)
    with ms d1 show ?thesis by (auto simp: then_do_def)
  next
    case (Inr x)
    from emitsD[OF assms(2), of x s1] obtain d2 where
      "snd (snd (f x s1)) = snd s1 @ d2" "list_all P d2" by auto
    with ms d1 Inr show ?thesis by (auto simp: then_do_def)
  qed
qed

lemma emits_try_except: "emits P m \<Longrightarrow> emits P (try_except m h)"
  unfolding emits_def try_except_def
  by (auto split: prod.splits sum.splits) (metis snd_conv)+

lemma emits_ok: "emits P m \<Longrightarrow> emits P (ok m)"
  unfolding emits_def ok_def
  by (auto split: prod.splits) (metis snd_conv)

lemma emits_attempt: "emits P m \<Longrightarrow> emits P (attempt m)"
  unfolding emits_def attempt_def
  by (auto split: prod.splits sum.splits) (metis snd_conv)+

lemma emits_for_each:
  assumes "\<And>x. emits P (body x)"
  shows "emits P (for_each body xs)"
proof (rule emitsI)
  fix s
  show "\<exists>delta. snd (snd (for_each body xs s)) = snd s @ delta \<and> list_all P delta"
  proof (induction xs arbitrary: s)
    case Nil
    show ?case by simp
  next
    case (Cons x xs)
    obtain r s1 where b: "body x s = (r, s1)" by (cases "body x s")
    from emitsD[OF assms, of x s] b obtain d1 where d1: "snd s1 = snd s @ d1" "list_all P d1"
      by auto
    from Cons.IH[of s1] obtain d2 where
      d2: "snd (snd (for_each body xs s1)) = snd s1 @ d2" "list_all P d2" by auto
    show ?case
    proof (cases r)
      case (Inl e)
      with b d1 show ?thesis by auto
    next
      case (Inr v)
      show ?thesis
      proof (cases v)
        case None
        with Inr b d1 d2 show ?thesis by auto
      next
        case (Some a)
        with Inr b d1 show ?thesis by auto
      qed
    qed
  qed
qed

lemma emits_if: "(c \<Longrightarrow> emits P m) \<Longrightarrow> (\<not> c \<Longrightarrow> emits P n) \<Longrightarrow> emits P (if c then m else n)"
  by simp

lemma emits_case_option:
  "emits P n \<Longrightarrow> (\<And>x. emits P (f x)) \<Longrightarrow> emits P (case v of None \<Rightarrow> n | Some x \<Rightarrow> f x)"
  by (cases v) simp_all

lemma emits_let: "emits P (f x) \<Longrightarrow> emits P (let y = x in f y)"
  by simp

lemmas emits_rules =
  emits_then_do emits_try_except emits_ok emits_attempt emits_for_each emits_ret emits_lift
  emits_read_clock emits_if emits_case_option emits_let

lemma emits_take_screenshot: "emits plain (take_screenshot env)"
  unfolding take_screenshot_def
  by (intro emits_rules emits_call emits_sleep; simp add: plain_def)

lemma emits_navigate: "emits plain (navigate_to_url env url parameters)"
  unfolding navigate_to_url_def
  by (intro emits_rules emits_call emits_sleep emits_take_screenshot; simp add: plain_def)

lemma emits_ai_try: "emits plain (ai_try_element env d p e)"
  unfolding ai_try_element_def
  by (intro emits_rules emits_call emits_click_op emits_sleep emits_take_screenshot;
      simp add: plain_def)

lemma emits_ai_click: "emits plain (ai_assisted_click env d p)"
  unfolding ai_assisted_click_def
  by (intro emits_rules emits_call emits_sleep emits_take_screenshot emits_ai_try; simp add: plain_def)

lemma emits_click_try: "emits plain (click_try_selector env p sel)"
  unfolding click_try_selector_def
  by (intro emits_rules emits_call emits_click_op emits_sleep emits_take_screenshot;
      simp add: plain_def)

lemma emits_click: "emits plain (click_element env sel p)"
  unfolding click_element_def
  by (intro emits_rules emits_call emits_sleep emits_take_screenshot emits_click_try emits_ai_click; simp add: plain_def)

lemma emits_fill: "emits plain (fill_form env sel p)"
  unfolding fill_form_def
  by (intro emits_rules emits_call emits_sleep emits_take_screenshot; simp add: plain_def)

lemma emits_extract: "emits plain (extract_data env sel p)"
  unfolding extract_data_def browser_text_def
  by (intro emits_rules emits_call emits_sleep emits_take_screenshot; simp add: plain_def)

lemma emits_wait: "emits plain (wait_action env sel p)"
  unfolding wait_action_def
  by (intro emits_rules emits_call emits_sleep emits_take_screenshot; simp add: plain_def)

lemma emits_conditional: "emits plain (execute_conditional env sel p c)"
  unfolding execute_conditional_def
  by (intro emits_rules emits_call emits_sleep emits_take_screenshot; simp add: plain_def)

lemma emits_after_note:
  assumes "emits P m"
  shows "\<exists>d. snd (snd (try_except (then_do (note_event ev) (\<lambda>_. m)) h s)) = snd s @ ev # d \<and>
             list_all P d"
proof -
  from emitsD[OF assms, of "(fst s, snd s @ [ev])"] obtain d where
    d: "snd (snd (m (fst s, snd s @ [ev]))) = (snd s @ [ev]) @ d" "list_all P d" by auto
  have "snd (snd (try_except (then_do (note_event ev) (\<lambda>_. m)) h s)) =
        snd (snd (m (fst s, snd s @ [ev])))"
    by (cases s) (simp add: io_apply split: prod.splits sum.splits)
  with d show ?thesis by auto
qed

lemma execute_workflow_step_trace:
  "\<exists>d. snd (snd (execute_workflow_step env step ctx s)) = snd s @ Dispatch step # d \<and>
       list_all plain d"
  unfolding execute_workflow_step_def
  by (rule emits_after_note)
     (intro emits_rules emits_call emits_sleep emits_take_screenshot emits_navigate emits_click
        emits_fill emits_extract emits_wait emits_conditional; simp add: plain_def)

section \<open>The shape of the results\<close>

lemma yieldsI: "(\<And>s. case fst (m s) of Inl e \<Rightarrow> True | Inr v \<Rightarrow> Q v) \<Longrightarrow> yields Q m"
  unfolding yields_def by blast

lemma yieldsD: "yields Q m \<Longrightarrow> m s = (Inr v, s') \<Longrightarrow> Q v"
  unfolding yields_def by (metis fst_conv sum.simps(6))

lemma alwaysD: "always Q m \<Longrightarrow> Q (fst (m s))"
  unfolding always_def by blast

lemma yields_ret: "Q x \<Longrightarrow> yields Q (ret x)"
  by (simp add: yields_def ret_def)

lemma yields_then_do_from:
  assumes "yields Q1 m" and "\<And>x. Q1 x \<Longrightarrow> yields Q (f x)"
  shows "yields Q (then_do m f)"
proof (rule yieldsI)
  fix s
  obtain r s1 where ms: "m s = (r, s1)" by (cases "m s")
  show "case fst (then_do m f s) of Inl e \<Rightarrow> True | Inr v \<Rightarrow> Q v"
  proof (cases r)
    case (Inl e)
    with ms show ?thesis by (simp add: then_do_apply)
  next
    case (Inr x)
    with ms assms(1) have "Q1 x" by (auto dest: yieldsD)
    from assms(2)[OF this] have "case fst (f x s1) of Inl e \<Rightarrow> True | Inr v \<Rightarrow> Q v"
      unfolding yields_def by blast
    with ms Inr show ?thesis by (simp add: then_do_apply)
  qed
qed

lemma yields_True: "yields (\<lambda>_. True) m"
  by (simp add: yields_def split: sum.splits)

lemma yields_then_do: "(\<And>x. yields Q (f x)) \<Longrightarrow> yields Q (then_do m f)"
  by (rule yields_then_do_from[OF yields_True]) 

lemma yields_ok: "always Q m \<Longrightarrow> yields Q (ok m)"
  by (auto simp: yields_def always_def ok_apply split: prod.splits) (metis fst_conv)

lemma yields_attempt: "yields Q m \<Longrightarrow> yields (pred_opt Q) (attempt m)"
  by (auto simp: yields_def attempt_apply pred_opt_def split: prod.splits sum.splits)
     (metis fst_conv sum.simps(6))

lemma yields_for_each:
  assumes "\<And>x. yields (pred_opt Q) (body x)"
  shows "yields (pred_opt Q) (for_each body xs)"
proof (rule yieldsI)
  fix s
  show "case fst (for_each body xs s) of Inl e \<Rightarrow> True | Inr v \<Rightarrow> pred_opt Q v"
  proof (induction xs arbitrary: s)
    case Nil
    show ?case by (simp add: pred_opt_def)
  next
    case (Cons x xs)
    obtain r s1 where b: "body x s = (r, s1)" by (cases "body x s")
    show ?case
    proof (cases r)
      case (Inl e)
      with b show ?thesis by simp
    next
      case (Inr v)
      show ?thesis
      proof (cases v)
        case None
        with Inr b Cons.IH[of s1] show ?thesis by simp
      next
        case (Some a)
        with Inr b assms[of x] have "pred_opt Q (Some a)" by (auto dest: yieldsD)
        with Some Inr b show ?thesis by simp
      qed
    qed
  qed
qed

lemma always_mono_or: "always Q m \<Longrightarrow> always (\<lambda>r. Q r \<or> R r) m"
  by (simp add: always_def)

lemma always_try_except: "yields Q m \<Longrightarrow> (\<And>e. Q (h e)) \<Longrightarrow> always Q (try_except m h)"
  by (auto simp: yields_def always_def try_except_apply split: prod.splits sum.splits)
     (metis fst_conv sum.simps(6))

lemma yields_if: "(c \<Longrightarrow> yields Q m) \<Longrightarrow> (\<not> c \<Longrightarrow> yields Q n) \<Longrightarrow> yields Q (if c then m else n)"
  by simp

lemma yields_let: "yields Q (f x) \<Longrightarrow> yields Q (let y = x in f y)"
  by simp

lemmas yields_rules = always_try_except yields_then_do yields_let yields_if

lemma action_result_success: 
  "action_result [(''success'', PBool True), (''data'', d), (''screenshot'', PStr p)]"
  by (simp add: action_result_def)

lemma action_result_failure: "action_result (failure e)"
  unfolding action_result_def by blast

lemma action_try_except:
  "yields action_result m \<Longrightarrow> always action_result (try_except m failure)"
  by (rule always_try_except) (simp_all add: action_result_failure)

lemma navigate_result: "always action_result (navigate_to_url env url parameters)"
  unfolding navigate_to_url_def
  by (intro yields_rules yields_ret action_result_success action_result_failure)

lemma fill_result: "always action_result (fill_form env selector parameters)"
  unfolding fill_form_def
  by (intro yields_rules yields_ret action_result_success action_result_failure)

lemma extract_result: "always action_result (extract_data env selector parameters)"
  unfolding extract_data_def
  by (intro yields_rules yields_ret action_result_success action_result_failure)

lemma wait_result: "always action_result (wait_action env condition parameters)"
  unfolding wait_action_def
  by (intro yields_rules yields_ret action_result_success action_result_failure)

lemma conditional_result: "always action_result (execute_conditional env condition parameters c)"
  unfolding execute_conditional_def
  by (intro yields_rules yields_ret action_result_success action_result_failure)

lemma ai_try_result: "yields (pred_opt action_result) (ai_try_element env d p element)"
  unfolding ai_try_element_def
  by (intro yields_then_do yields_if yields_attempt yields_ret action_result_success)
     (simp_all add: pred_opt_def)

lemma ai_click_result: "always action_result (ai_assisted_click env d parameters)"
  unfolding ai_assisted_click_def
proof (rule action_try_except, rule yields_then_do, rule yields_let,
    rule yields_then_do, rule yields_then_do,
    rule yields_then_do_from[OF yields_for_each[OF ai_try_result]])
  fix clicked :: "pydict option"
  assume "pred_opt action_result clicked"
  then show "yields action_result
     (case clicked of Some r \<Rightarrow> ret r
      | None \<Rightarrow> ret (failure ''AI could not find the specified element''))"
    by (cases clicked) (simp_all add: pred_opt_def yields_ret action_result_failure)
qed

lemma click_try_result: "yields (pred_opt action_result) (click_try_selector env parameters sel)"
  unfolding click_try_selector_def
  by (intro yields_attempt yields_then_do yields_ret action_result_success)

lemma click_result: "always action_result (click_element env selector parameters)"
  unfolding click_element_def
proof (rule action_try_except, rule yields_then_do,
    rule yields_then_do, rule yields_then_do_from[OF yields_for_each[OF click_try_result]])
  fix clicked :: "pydict option"
  assume "pred_opt action_result clicked"
  then show "yields action_result
     (case clicked of Some r \<Rightarrow> ret r
      | None \<Rightarrow> ok (ai_assisted_click env selector parameters))"
    by (cases clicked) (simp_all add: pred_opt_def yields_ret yields_ok ai_click_result)
qed

lemma dispatch_finish:
  assumes "action_result r \<or> (\<exists>msg. r = dict_set (initial_result step) ''error'' (PStr msg))"
  shows "yields dispatch_result
     (then_do (read_clock env) (\<lambda>end_time.
        then_do (lift (dict_index
                   (dict_set r ''duration'' (PFloat (total_seconds end_time start_time)))
                   ''success'')) (\<lambda>success.
        if truthy success then
          then_do (ok (take_screenshot env)) (\<lambda>shot.
          ret (dict_set (dict_set r ''duration'' (PFloat (total_seconds end_time start_time)))
                 ''screenshot'' (PStr shot)))
        else ret (dict_set r ''duration'' (PFloat (total_seconds end_time start_time))))))"
proof -
  from assms consider
    (good) d p where "r = [(''success'', PBool True), (''data'', d), (''screenshot'', PStr p)]"
  | (bad) e where "r = failure e"
  | (unknown) msg where "r = dict_set (initial_result step) ''error'' (PStr msg)"
    unfolding action_result_def by blast
  then show ?thesis
  proof cases
    case good
    then show ?thesis
      by (auto simp: yields_def io_apply dict_index_def dispatch_result_def
          split: prod.splits sum.splits)
  next
    case bad
    then show ?thesis
      by (auto simp: yields_def io_apply dict_index_def dispatch_result_def failure_def
          split: prod.splits sum.splits)
  next
    case unknown
    then show ?thesis
      by (auto simp: yields_def io_apply dict_index_def dispatch_result_def initial_result_def
          split: prod.splits sum.splits)
  qed
qed

lemma dispatch_result_crashed: "dispatch_result (crashed_result step e)"
  unfolding dispatch_result_def crashed_result_def by blast

lemma execute_workflow_step_result: "always dispatch_result (execute_workflow_step env step ctx)"
  unfolding execute_workflow_step_def Let_def
proof (rule always_try_except[where Q = dispatch_result], rule yields_then_do, rule yields_then_do,
    rule yields_then_do_from[where ?Q1.0 = "\<lambda>r. action_result r \<or>
       (\<exists>msg. r = dict_set (initial_result step) ''error'' (PStr msg))"])
  fix u :: unit and start_time :: datetime
  show "yields (\<lambda>r. action_result r \<or> (\<exists>msg. r = dict_set (initial_result step) ''error'' (PStr msg)))
     (if dict_get step ''action_type'' PNone = PStr ''navigate''
      then ok (navigate_to_url env (dict_get step ''target'' PNone)
                 (dict_get step ''parameters'' (PDict [])))
      else if dict_get step ''action_type'' PNone = PStr ''click''
      then ok (click_element env (dict_get step ''target'' PNone)
                 (dict_get step ''parameters'' (PDict [])))
      else if dict_get step ''action_type'' PNone = PStr ''fill''
      then ok (fill_form env (dict_get step ''target'' PNone)
                 (dict_get step ''parameters'' (PDict [])))
      else if dict_get step ''action_type'' PNone = PStr ''extract''
      then ok (extract_data env (dict_get step ''target'' PNone)
                 (dict_get step ''parameters'' (PDict [])))
      else if dict_get step ''action_type'' PNone = PStr ''wait''
      then ok (wait_action env (dict_get step ''target'' PNone)
                 (dict_get step ''parameters'' (PDict [])))
      else if dict_get step ''action_type'' PNone = PStr ''conditional''
      then ok (execute_conditional env (dict_get step ''target'' PNone)
                 (dict_get step ''parameters'' (PDict [])) ctx)
      else ret (dict_set (initial_result step) ''error''
                  (PStr (''Unknown action type: '' @
                         py_str env (dict_get step ''action_type'' PNone)))))"
    by (intro yields_if yields_ok yields_ret always_mono_or navigate_result click_result
        fill_result extract_result wait_result conditional_result) blast
next
  fix u :: unit and start_time :: datetime and r :: pydict
  assume "action_result r \<or> (\<exists>msg. r = dict_set (initial_result step) ''error'' (PStr msg))"
  then show "yields dispatch_result
     (then_do (read_clock env) (\<lambda>end_time.
        then_do (lift (dict_index
                   (dict_set r ''duration'' (PFloat (total_seconds end_time start_time)))
                   ''success'')) (\<lambda>success.
        if truthy success then
          then_do (ok (take_screenshot env)) (\<lambda>shot.
          ret (dict_set (dict_set r ''duration'' (PFloat (total_seconds end_time start_time)))
                 ''screenshot'' (PStr shot)))
        else ret (dict_set r ''duration'' (PFloat (total_seconds end_time start_time))))))"
    by (rule dispatch_finish)
next
  fix e show "dispatch_result (crashed_result step e)"
    by (rule dispatch_result_crashed)
qed

lemma dispatch_result_success_key:
  "dispatch_result r \<Longrightarrow> \<exists>b. map_of r ''success'' = Some (PBool b)"
  unfolding dispatch_result_def by auto

lemma dispatch_result_succeeded:
  "dispatch_result r \<Longrightarrow> succeeded r \<Longrightarrow>
   \<exists>d p. map_of r ''data'' = Some d \<and> map_of r ''screenshot'' = Some (PStr p)"
  unfolding dispatch_result_def succeeded_def dict_get_def by auto

lemma dispatch_result_no_stamp:
  "dispatch_result r \<Longrightarrow> map_of r ''recovery_attempted'' = None"
  unfolding dispatch_result_def by auto

lemma plain_counts: "list_all plain d \<Longrightarrow> advisor_calls d = 0 \<and> dispatches d = 0"
  by (induction d) (simp_all add: plain_def advisor_calls_def dispatches_def)

lemma recovery_result_failure: "recovery_result (failure e)"
  unfolding recovery_result_def by blast

lemma recovery_result_dispatch: "dispatch_result r \<Longrightarrow> recovery_result r"
  unfolding recovery_result_def by blast

lemma recovery_result_failed: "recovery_result (recovery_failed env e)"
  unfolding recovery_result_def recovery_failed_def by blast

lemma recovery_result_success_key:
  "recovery_result r \<Longrightarrow> \<exists>b. map_of r ''success'' = Some (PBool b)"
  unfolding recovery_result_def
  by (auto simp: failure_def dest: dispatch_result_success_key)

lemma recovery_result_succeeded:
  "recovery_result r \<Longrightarrow> succeeded r \<Longrightarrow> dispatch_result r"
  unfolding recovery_result_def
  by (auto simp: failure_def succeeded_def dict_get_def)

section \<open>The cases of recovery\<close>

text \<open>
  What \<^verbatim>\<open>_handle_step_failure\<close> does, case by case: the step has no
  \<^verbatim>\<open>step_number\<close>; the advisor raises; the advisor recommends an immediate retry; it
  recommends the alternative approach and the step has a fallback selector; anything else.
\<close>

lemma retry_events_Nil:
  "retry_events step (Inr strategy) = [] \<longleftrightarrow>
     advised strategy \<noteq> PStr ''immediate_retry'' \<and>
     (advised strategy = PStr ''alternative_approach'' \<longrightarrow> fallbacks_of step = [])"
  by (simp add: retry_events_def split: list.splits)

lemma handle_step_failure_cases
  [case_names no_number advisor_raised retry fallback gave_up]:
  obtains
    (no_number) e where
      "map_of step ''step_number'' = None"
      "handle_step_failure env step sr ctx (w, tr) = ((failure e, step), (w, tr))"
  | (advisor_raised) n e w1 where
      "map_of step ''step_number'' = Some n"
      "ai_generate_error_recovery_strategy env (error_of sr) (step_context env step n) w =
         (Inl e, w1)"
      "handle_step_failure env step sr ctx (w, tr) =
         ((failure e, step),
          (w1, tr @ [RecoveryAdvice (error_of sr) (step_context env step n)]))"
  | (retry) n strategy w1 where
      "map_of step ''step_number'' = Some n"
      "ai_generate_error_recovery_strategy env (error_of sr) (step_context env step n) w =
         (Inr strategy, w1)"
      "advised strategy = PStr ''immediate_retry''"
      "handle_step_failure env step sr ctx (w, tr) =
         (case execute_workflow_step env step ctx
                 (do_sleep env 2 w1,
                  tr @ [RecoveryAdvice (error_of sr) (step_context env step n), Sleep 2]) of
            (r, s') \<Rightarrow> ((r, step), s'))"
  | (fallback) n strategy w1 selector rest where
      "map_of step ''step_number'' = Some n"
      "ai_generate_error_recovery_strategy env (error_of sr) (step_context env step n) w =
         (Inr strategy, w1)"
      "advised strategy = PStr ''alternative_approach''"
      "fallbacks_of step = selector # rest"
      "handle_step_failure env step sr ctx (w, tr) =
         (case execute_workflow_step env (dict_set step ''target'' selector) ctx
                 (w1, tr @ [RecoveryAdvice (error_of sr) (step_context env step n)]) of
            (r, s') \<Rightarrow> ((r, dict_set step ''target'' selector), s'))"
  | (gave_up) n strategy w1 r where
      "map_of step ''step_number'' = Some n"
      "ai_generate_error_recovery_strategy env (error_of sr) (step_context env step n) w =
         (Inr strategy, w1)"
      "retry_events step (Inr strategy) = []"
      "r = recovery_failed env (error_of sr) \<or> (\<exists>e. r = failure e)"
      "handle_step_failure env step sr ctx (w, tr) =
         ((r, step), (w1, tr @ [RecoveryAdvice (error_of sr) (step_context env step n)]))"
proof (cases "map_of step ''step_number''")
  case None
  then have "handle_step_failure env step sr ctx (w, tr) =
      ((failure ([CHR 0x27] @ ''step_number'' @ [CHR 0x27]), step), (w, tr))"
    by (simp add: handle_step_failure_def io_apply dict_index_def Let_def)
  with None show ?thesis by (rule no_number)
next
  case (Some n)
  let ?e = "error_of sr"
  let ?c = "step_context env step n"
  obtain answer w1 where
    adv: "ai_generate_error_recovery_strategy env ?e ?c w = (answer, w1)"
    by (cases "ai_generate_error_recovery_strategy env ?e ?c w")
  show ?thesis
  proof (cases answer)
    case (Inl e)
    with Some adv have "handle_step_failure env step sr ctx (w, tr) =
        ((failure e, step), (w1, tr @ [RecoveryAdvice ?e ?c]))"
      by (simp add: handle_step_failure_def io_apply dict_index_def Let_def)
    with Some adv Inl show ?thesis by (intro advisor_raised[of n e w1]) simp_all
  next
    case (Inr strategy)
    note adv' = adv[unfolded Inr]
    show ?thesis
    proof (cases "advised strategy = PStr ''immediate_retry''")
      case True
      with Some adv' have "handle_step_failure env step sr ctx (w, tr) =
         (case execute_workflow_step env step ctx
                 (do_sleep env 2 w1, tr @ [RecoveryAdvice ?e ?c, Sleep 2]) of
            (r, s') \<Rightarrow> ((r, step), s'))"
        by (simp add: handle_step_failure_def io_apply dict_index_def Let_def advised_def
            split: prod.splits)
      with Some adv' True show ?thesis by (intro retry[of n strategy w1]) simp_all
    next
      case no_retry: False
      show ?thesis
      proof (cases "advised strategy = PStr ''alternative_approach'' \<and> fallbacks_of step \<noteq> []")
        case True
        then obtain selector rest where sel: "fallbacks_of step = selector # rest"
          by (cases "fallbacks_of step") simp_all
        from True have alt: "advised strategy = PStr ''alternative_approach''" by simp
        from sel have "\<exists>v. py_get (dict_get step ''parameters'' (PDict [])) ''fallback_selectors''
            (PList []) = Inr v \<and> py_iter v = Inr (selector # rest)"
          by (auto simp: fallbacks_of_def split: sum.splits)
        with Some adv' alt no_retry have "handle_step_failure env step sr ctx (w, tr) =
           (case execute_workflow_step env (dict_set step ''target'' selector) ctx
                   (w1, tr @ [RecoveryAdvice ?e ?c]) of
              (r, s') \<Rightarrow> ((r, dict_set step ''target'' selector), s'))"
          by (auto simp: handle_step_failure_def io_apply dict_index_def Let_def advised_def
              split: prod.splits)
        with Some adv' alt sel show ?thesis
          by (intro fallback[of n strategy w1 selector rest]) simp_all
      next
        case False
        with no_retry have none: "retry_events step (Inr strategy) = []"
          by (auto simp: retry_events_Nil)
        define r where "r = fst (fst (handle_step_failure env step sr ctx (w, tr)))"
        from Some adv' no_retry False
        have "handle_step_failure env step sr ctx (w, tr) =
               ((r, step), (w1, tr @ [RecoveryAdvice ?e ?c])) \<and>
              (r = recovery_failed env ?e \<or> (\<exists>e. r = failure e))"
          unfolding r_def
          by (auto simp: handle_step_failure_def io_apply dict_index_def Let_def advised_def
              fallbacks_of_def split: prod.splits sum.splits list.splits)
        with Some adv' none show ?thesis
          by (intro gave_up[of n strategy w1 r]) simp_all
      qed
    qed
  qed
qed

lemma handle_step_failure_result:
  "recovery_result (fst (fst (handle_step_failure env step sr ctx s)))"
proof -
  obtain w tr where s: "s = (w, tr)" by (cases s)
  have dispatched: "recovery_result (fst (execute_workflow_step env step' ctx s'))"
    for step' s'
    by (rule recovery_result_dispatch) (rule alwaysD[OF execute_workflow_step_result])
  show ?thesis
  proof (cases rule: handle_step_failure_cases[where step = step and env = env and sr = sr
        and w = w and ctx = ctx and tr = tr])
    case (no_number e)
    then show ?thesis by (simp add: s recovery_result_failure)
  next
    case (advisor_raised n e w1)
    then show ?thesis by (simp add: s recovery_result_failure)
  next
    case (retry n strategy w1)
    from dispatched[of step "(do_sleep env 2 w1,
        tr @ [RecoveryAdvice (error_of sr) (step_context env step n), Sleep 2])"] retry(4)
    show ?thesis by (simp add: s split: prod.splits)
  next
    case (fallback n strategy w1 selector rest)
    from dispatched[of "dict_set step ''target'' selector"
        "(w1, tr @ [RecoveryAdvice (error_of sr) (step_context env step n)])"] fallback(5)
    show ?thesis by (simp add: s split: prod.splits)
  next
    case (gave_up n strategy w1 r)
    then show ?thesis by (auto simp: s recovery_result_failure recovery_result_failed)
  qed
qed

text \<open>The step that recovery leaves behind is the step it was given, or that step with
  its first fallback selector for target.\<close>

lemma handle_step_failure_step:
  "retry_of step (snd (fst (handle_step_failure env step sr ctx s)))"
proof -
  obtain w tr where s: "s = (w, tr)" by (cases s)
  have same: "dict_get (dict_set step ''target'' selector) ''target'' PNone = selector"
    for selector
    by (induction step) (auto simp: dict_get_def)
  show ?thesis
    by (cases rule: handle_step_failure_cases[where step = step and env = env and sr = sr
          and w = w and ctx = ctx and tr = tr])
       (auto simp: s retry_of_def retargeted_def same split: prod.splits)
qed

section \<open>One pass of the runner's loop\<close>

lemma workflow_iteration_failed:
  assumes exec: "execute_workflow_step env step ctx s = (r1, s1)"
      and failed: "\<not> succeeded r1"
      and rec: "handle_step_failure env step r1 ctx s1 = ((r2, step'), s2)"
  shows "workflow_iteration env step results ctx s =
           ((Inr (\<not> succeeded r2, results @ [if succeeded r2 then r2 else r1], ctx), step'), s2)"
proof -
  from alwaysD[OF execute_workflow_step_result, of env step ctx s] exec
  have "dispatch_result r1" by simp
  then obtain b where b: "map_of r1 ''success'' = Some (PBool b)"
    by (auto dest: dispatch_result_success_key)
  with failed have b_False: "\<not> b" by (simp add: succeeded_def dict_get_def)
  from handle_step_failure_result[of env step r1 ctx s1] rec
  have "recovery_result r2" by simp
  then obtain b2 where b2: "map_of r2 ''success'' = Some (PBool b2)"
    by (auto dest: recovery_result_success_key)
  then have "succeeded r2 = b2" by (simp add: succeeded_def dict_get_def)
  with exec rec b b_False b2 show ?thesis
    by (simp add: workflow_iteration_def dispatch_and_record_def io_apply dict_index_def Let_def)
qed

lemma workflow_iteration_succeeded:
  assumes exec: "execute_workflow_step env step ctx s = (r1, s1)"
      and good: "succeeded r1"
  shows "workflow_iteration env step results ctx s =
           ((case dict_index step ''step_number'' of
               Inl e \<Rightarrow> Inl e
             | Inr n \<Rightarrow>
                 Inr (False, results @ [r1],
                      dict_set ctx (''step_'' @ py_str env n @ ''_result'')
                        (dict_get r1 ''data'' PNone)), step), s1)"
proof -
  from alwaysD[OF execute_workflow_step_result, of env step ctx s] exec
  have dr: "dispatch_result r1" by simp
  then obtain b where b: "map_of r1 ''success'' = Some (PBool b)"
    by (auto dest: dispatch_result_success_key)
  with good have b_True: "b" by (simp add: succeeded_def dict_get_def)
  from dispatch_result_succeeded[OF dr good] obtain d where d: "map_of r1 ''data'' = Some d"
    by blast
  with exec b b_True show ?thesis
    by (simp add: workflow_iteration_def dispatch_and_record_def io_apply dict_index_def
        dict_get_def Let_def split: sum.splits option.splits)
qed

section \<open>Running the examples\<close>

lemma example_env_sel:
  "py_str (example_env b a) = example_str"
  "clock_now (example_env b a) = (\<lambda>w. (example_time w, w + 1))"
  "do_sleep (example_env b a) = (\<lambda>seconds w. w)"
  "b_goto (example_env b a) = (\<lambda>url w. (Inr (), w))"
  "b_title (example_env b a) = (\<lambda>w. (Inr (PStr ''Example''), w))"
  "b_click (example_env b a) = (\<lambda>locator. unless_broken b locator ())"
  "b_clear (example_env b a) = (\<lambda>locator. unless_broken b locator ())"
  "b_type (example_env b a) = (\<lambda>locator text. unless_broken b locator ())"
  "b_text (example_env b a) = (\<lambda>locator. unless_broken b locator ''some text'')"
  "b_attribute (example_env b a) = (\<lambda>locator name w. (Inr (PStr ''value''), w))"
  "b_text_all (example_env b a) = (\<lambda>locator w. (Inr (PList [PStr ''some text'']), w))"
  "b_wait_for_element (example_env b a) = (\<lambda>locator timeout w. (Inr (), w))"
  "b_wait_for_text (example_env b a) = (\<lambda>text timeout w. (Inr (), w))"
  "b_exists (example_env b a) = (\<lambda>locator w. (Inr (PBool (locator \<notin> set b)), w))"
  "b_evaluate (example_env b a) = (\<lambda>script w. (Inr PNone, w))"
  "b_screenshot (example_env b a) = (\<lambda>path w. (Inr (), w))"
  "ai_analyze_screenshot (example_env b a) =
     (\<lambda>path task w. (Inr [(''identified_elements'', PList [])], w))"
  "ai_generate_error_recovery_strategy (example_env b a) =
     (\<lambda>error_description workflow_context w. (Inr [(''recommended_action'', PStr a)], w))"
  by (simp_all add: example_env_def)

lemma example_take_screenshot:
  "take_screenshot (example_env b a) (w, tr) = (shot w, (w + 1, tr @ [Screenshot (shot w)]))"
  by (simp add: take_screenshot_def io_apply example_env_sel shot_def Let_def)

lemmas engine_defs =
  execute_workflow_def make_report_def workflow_iteration_def dispatch_and_record_def
  execute_workflow_step_def handle_step_failure_def
  navigate_to_url_def click_element_def click_try_selector_def fill_form_def extract_data_def
  browser_text_def wait_action_def execute_conditional_def ai_assisted_click_def
  ai_try_element_def recovery_failed_def initial_result_def crashed_result_def
  error_report_def failure_def

lemma Suc_Suc_0: "Suc (Suc 0) = 2"
  by simp

lemmas example_simps = Suc_Suc_0
  io_apply example_env_sel example_take_screenshot unless_broken_def mk_step_def
  dict_get_def dict_index_def Let_def

lemmas time_simps =
  total_seconds_def to_micros_def example_time_def days_before_year_def days_before_month_def
  is_leap_def digits_of.simps digit_def

section \<open>The trace of a run\<close>

lemma counts_append:
  "advisor_calls (d1 @ d2) = advisor_calls d1 + advisor_calls d2"
  "dispatches (d1 @ d2) = dispatches d1 + dispatches d2"
  by (simp_all add: advisor_calls_def dispatches_def)

lemma dispatched_append: "dispatched (d1 @ d2) = dispatched d1 @ dispatched d2"
  by (induction d1 rule: dispatched.induct) simp_all

lemma dispatched_plain: "list_all plain d \<Longrightarrow> dispatched d = []"
  by (induction d rule: dispatched.induct) (simp_all add: plain_def)

lemma dropWhile_plain_all: "list_all plain d \<Longrightarrow> dropWhile plain d = []"
  by (induction d) simp_all

lemma dropWhile_plain_advice:
  "list_all plain d \<Longrightarrow>
   dropWhile plain (d @ RecoveryAdvice e c # rest) = RecoveryAdvice e c # rest"
  by (induction d) (simp_all add: plain_def)

lemma dict_get_set_same: "dict_get (dict_set d k v) k dflt = v"
  by (induction d) (auto simp: dict_get_def)

lemma after_advice_nothing: "after_advice step []"
  by (simp add: after_advice_def)

lemma after_advice_retry: "list_all plain d \<Longrightarrow> after_advice step (Sleep 2 # Dispatch step # d)"
  by (simp add: after_advice_def)

lemma after_advice_fallback:
  "list_all plain d \<Longrightarrow> after_advice step (Dispatch (dict_set step ''target'' selector) # d)"
  by (simp add: after_advice_def retargeted_def dict_get_set_same)

lemma after_adviceE [consumes 1, case_names nothing retry fallback]:
  assumes "after_advice step rest"
  obtains
    (nothing) "rest = []"
  | (retry) d where "rest = Sleep 2 # Dispatch step # d" "list_all plain d"
  | (fallback) x d where "rest = Dispatch x # d" "retargeted step x" "list_all plain d"
proof (cases rest)
  case Nil
  then show ?thesis by (rule nothing)
next
  case (Cons ev later)
  show ?thesis
  proof (cases ev)
    case (Sleep q)
    with assms Cons have q: "q = 2" and t: "take 1 later = [Dispatch step]"
      and p: "list_all plain (drop 1 later)"
      by (simp_all add: after_advice_def)
    from t obtain d where "later = Dispatch step # d" by (cases later) simp_all
    with p q Cons Sleep show ?thesis by (intro retry[of d]) simp_all
  next
    case (Dispatch x)
    with assms Cons show ?thesis
      by (intro fallback[of x later]) (simp_all add: after_advice_def)
  qed (insert assms Cons, simp_all add: after_advice_def)
qed

lemma step_segment_plain: "list_all plain d \<Longrightarrow> step_segment step (Dispatch step # d)"
  by (simp add: step_segment_def dropWhile_plain_all)

lemma step_segment_advice:
  "list_all plain d \<Longrightarrow> after_advice step rest \<Longrightarrow>
   step_segment step (Dispatch step # d @ RecoveryAdvice e c # rest)"
  by (simp add: step_segment_def dropWhile_plain_advice)

lemma step_segmentE [consumes 1, case_names plain advice]:
  assumes "step_segment step seg"
  obtains
    (plain) d where "seg = Dispatch step # d" "list_all plain d"
  | (advice) d e c rest where
      "seg = Dispatch step # d @ RecoveryAdvice e c # rest" "list_all plain d"
      "after_advice step rest"
proof -
  from assms have "take 1 seg = [Dispatch step]" by (simp add: step_segment_def)
  then obtain later where seg: "seg = Dispatch step # later" by (cases seg) simp_all
  define d where "d = takeWhile plain later"
  define r where "r = dropWhile plain later"
  have later: "later = d @ r" by (simp add: d_def r_def)
  have d: "list_all plain d" by (simp add: d_def list_all_iff) (meson set_takeWhileD)
  show ?thesis
  proof (cases r)
    case Nil
    with seg later d show ?thesis by (intro plain[of d]) simp_all
  next
    case (Cons ev rest)
    from assms seg have "case r of [] \<Rightarrow> True | RecoveryAdvice e c # rec \<Rightarrow> after_advice step rec
        | _ \<Rightarrow> False"
      by (simp add: step_segment_def r_def)
    with Cons obtain e c where "ev = RecoveryAdvice e c" "after_advice step rest"
      by (cases ev) simp_all
    with seg later d Cons show ?thesis by (intro advice[of d e c rest]) simp_all
  qed
qed

lemma advisor_calls_simps:
  "advisor_calls [] = 0"
  "advisor_calls (RecoveryAdvice e c # d) = Suc (advisor_calls d)"
  "advisor_calls (Dispatch step # d) = advisor_calls d"
  "advisor_calls (Sleep q # d) = advisor_calls d"
  by (simp_all add: advisor_calls_def)

lemma dispatches_simps:
  "dispatches [] = 0"
  "dispatches (Dispatch step # d) = Suc (dispatches d)"
  "dispatches (RecoveryAdvice e c # d) = dispatches d"
  "dispatches (Sleep q # d) = dispatches d"
  by (simp_all add: dispatches_def)

lemma step_segment_counts:
  assumes "step_segment step seg"
  shows "advisor_calls seg \<le> 1 \<and> dispatches seg \<le> 2"
  using assms
proof (cases rule: step_segmentE)
  case (plain d)
  with plain_counts[of d] show ?thesis
    by (simp add: advisor_calls_simps dispatches_simps)
next
  case (advice d e c rest)
  from advice(3) have "advisor_calls rest = 0 \<and> dispatches rest \<le> 1"
  proof (cases rule: after_adviceE)
    case nothing
    then show ?thesis by (simp add: advisor_calls_simps dispatches_simps)
  next
    case (retry d')
    with plain_counts[of d'] show ?thesis
      by (simp add: advisor_calls_simps dispatches_simps)
  next
    case (fallback x d')
    with plain_counts[of d'] show ?thesis
      by (simp add: advisor_calls_simps dispatches_simps)
  qed
  with advice(1) plain_counts[OF advice(2)] show ?thesis
    by (simp add: advisor_calls_simps dispatches_simps counts_append)
qed

lemma segments_counts:
  "list_all2 step_segment steps segs \<Longrightarrow>
   list_all (\<lambda>seg. advisor_calls seg \<le> 1 \<and> dispatches seg \<le> 2) segs"
  by (induction rule: list_all2_induct) (auto dest: step_segment_counts)

lemma step_segment_dispatched:
  assumes "step_segment step seg"
  shows "dispatched seg = [step] \<or> (\<exists>d. dispatched seg = [step, d] \<and> retry_of step d)"
  using assms
proof (cases rule: step_segmentE)
  case (plain d)
  then show ?thesis by (simp add: dispatched_plain)
next
  case (advice d e c rest)
  from advice(3) have "dispatched rest = [] \<or> (\<exists>x. dispatched rest = [x] \<and> retry_of step x)"
    by (cases rule: after_adviceE) (auto simp: dispatched_plain retry_of_def)
  with advice(1,2) show ?thesis
    by (auto simp: dispatched_append dispatched_plain)
qed

lemma segments_in_list_order:
  "list_all2 step_segment (take (length segs) steps) segs \<Longrightarrow>
   in_list_order steps (dispatched (concat segs))"
proof (induction segs arbitrary: steps)
  case Nil
  show ?case by simp
next
  case (Cons seg segs)
  from Cons.prems obtain step rest where steps: "steps = step # rest"
    by (cases steps) simp_all
  with Cons.prems have seg: "step_segment step seg"
    and rest: "list_all2 step_segment (take (length segs) rest) segs"
    by simp_all
  from Cons.IH[OF rest] have ih: "in_list_order rest (dispatched (concat segs))" .
  from step_segment_dispatched[OF seg] ih show ?case
    by (auto simp: steps dispatched_append)
qed

lemma segments_all_in_list_order:
  "list_all2 step_segment steps segs \<Longrightarrow> all_in_list_order steps (dispatched (concat segs))"
proof (induction segs arbitrary: steps)
  case Nil
  then show ?case by simp
next
  case (Cons seg segs)
  from Cons.prems obtain step rest where steps: "steps = step # rest"
    by (cases steps) simp_all
  with Cons.prems have seg: "step_segment step seg"
    and rest: "list_all2 step_segment rest segs"
    by simp_all
  from Cons.IH[OF rest] have ih: "all_in_list_order rest (dispatched (concat segs))" .
  from step_segment_dispatched[OF seg] ih show ?case
    by (auto simp: steps dispatched_append)
qed

text \<open>The trace of recovery, and of one pass of the loop.\<close>

lemma handle_step_failure_trace:
  "\<exists>rest. snd (snd (handle_step_failure env step sr ctx s)) = snd s @ rest \<and>
     (rest = [] \<or> (\<exists>e c later. rest = RecoveryAdvice e c # later \<and> after_advice step later))"
proof -
  obtain w tr where s: "s = (w, tr)" by (cases s)
  show ?thesis
  proof (cases rule: handle_step_failure_cases[where step = step and env = env and sr = sr
        and w = w and ctx = ctx and tr = tr])
    case (no_number e)
    then show ?thesis by (simp add: s)
  next
    case (advisor_raised n e w1)
    then show ?thesis by (simp add: s after_advice_nothing)
  next
    case (retry n strategy w1)
    let ?s1 = "(do_sleep env 2 w1,
        tr @ [RecoveryAdvice (error_of sr) (step_context env step n), Sleep 2])"
    from execute_workflow_step_trace[of env step ctx ?s1] obtain d where
      d: "snd (snd (execute_workflow_step env step ctx ?s1)) = snd ?s1 @ Dispatch step # d"
         "list_all plain d" by blast
    from retry(4) d(1)
    have "snd (snd (handle_step_failure env step sr ctx s)) =
        snd s @ RecoveryAdvice (error_of sr) (step_context env step n) #
                Sleep 2 # Dispatch step # d"
      by (auto simp: s split: prod.splits)
    with after_advice_retry[OF d(2), of step] show ?thesis by blast
  next
    case (fallback n strategy w1 selector rest)
    let ?s1 = "(w1, tr @ [RecoveryAdvice (error_of sr) (step_context env step n)])"
    let ?step = "dict_set step ''target'' selector"
    from execute_workflow_step_trace[of env ?step ctx ?s1] obtain d where
      d: "snd (snd (execute_workflow_step env ?step ctx ?s1)) = snd ?s1 @ Dispatch ?step # d"
         "list_all plain d" by blast
    from fallback(5) d(1)
    have "snd (snd (handle_step_failure env step sr ctx s)) =
        snd s @ RecoveryAdvice (error_of sr) (step_context env step n) # Dispatch ?step # d"
      by (auto simp: s split: prod.splits)
    with after_advice_fallback[OF d(2), of step selector] show ?thesis by blast
  next
    case (gave_up n strategy w1 r)
    then show ?thesis by (simp add: s after_advice_nothing)
  qed
qed

lemma workflow_iteration_segment:
  "\<exists>seg. snd (snd (workflow_iteration env step results ctx s)) = snd s @ seg \<and>
         step_segment step seg"
proof -
  obtain r1 s1 where exec: "execute_workflow_step env step ctx s = (r1, s1)"
    by (cases "execute_workflow_step env step ctx s")
  from execute_workflow_step_trace[of env step ctx s] exec obtain d1 where
    d1: "snd s1 = snd s @ Dispatch step # d1" "list_all plain d1" by auto
  show ?thesis
  proof (cases "succeeded r1")
    case True
    from workflow_iteration_succeeded[OF exec True, of results]
    have "snd (snd (workflow_iteration env step results ctx s)) = snd s1"
      by (simp split: sum.splits)
    with d1 step_segment_plain[OF d1(2), of step] show ?thesis by simp
  next
    case False
    obtain r2 step' s2 where rec: "handle_step_failure env step r1 ctx s1 = ((r2, step'), s2)"
      by (cases "handle_step_failure env step r1 ctx s1") auto
    from handle_step_failure_trace[of env step r1 ctx s1] rec obtain rest where
      rest: "snd s2 = snd s1 @ rest"
        "rest = [] \<or> (\<exists>e c later. rest = RecoveryAdvice e c # later \<and> after_advice step later)"
      by auto
    from workflow_iteration_failed[OF exec False rec, of results]
    have tr: "snd (snd (workflow_iteration env step results ctx s)) = snd s2" by simp
    from rest(2) show ?thesis
    proof
      assume "rest = []"
      with tr rest(1) d1 step_segment_plain[OF d1(2), of step] show ?thesis by simp
    next
      assume "\<exists>e c later. rest = RecoveryAdvice e c # later \<and> after_advice step later"
      then obtain e c later where
        later: "rest = RecoveryAdvice e c # later" "after_advice step later" by blast
      from step_segment_advice[OF d1(2) later(2), of e c]
      have "step_segment step (Dispatch step # d1 @ RecoveryAdvice e c # later)" .
      with tr rest(1) d1(1) later(1) show ?thesis by simp
    qed
  qed
qed

text \<open>A pass that does not raise adds one result; it stops the loop exactly when that
  result is a failure.\<close>

lemma workflow_iteration_outcome:
  assumes "fst (fst (workflow_iteration env step results ctx s)) = Inr (stop, results', ctx')"
  shows "\<exists>r. results' = results @ [r] \<and> stop = (\<not> succeeded r)"
proof -
  obtain r1 s1 where exec: "execute_workflow_step env step ctx s = (r1, s1)"
    by (cases "execute_workflow_step env step ctx s")
  show ?thesis
  proof (cases "succeeded r1")
    case True
    from workflow_iteration_succeeded[OF exec True, of results] assms True show ?thesis
      by (auto split: sum.splits)
  next
    case False
    obtain r2 step' s2 where rec: "handle_step_failure env step r1 ctx s1 = ((r2, step'), s2)"
      by (cases "handle_step_failure env step r1 ctx s1") auto
    from workflow_iteration_failed[OF exec False rec, of results] assms False show ?thesis
      by auto
  qed
qed

text \<open>The trace of the loop is one segment for each step of a prefix of the list.\<close>

lemma workflow_loop_segments:
  "\<exists>segs. snd (snd (workflow_loop env steps results ctx s)) = snd s @ concat segs \<and>
          length segs \<le> length steps \<and>
          list_all2 step_segment (take (length segs) steps) segs \<and>
          (steps = [] \<or> segs \<noteq> [])"
proof (induction steps arbitrary: results ctx s)
  case Nil
  show ?case by (intro exI[of _ "[]"]) simp
next
  case (Cons step rest)
  obtain out step' s1 where it: "workflow_iteration env step results ctx s = ((out, step'), s1)"
    by (cases "workflow_iteration env step results ctx s") auto
  from workflow_iteration_segment[of env step results ctx s] it obtain seg where
    seg: "snd s1 = snd s @ seg" "step_segment step seg" by auto
  have one: "\<exists>segs. snd s1 = snd s @ concat segs \<and> length segs \<le> length (step # rest) \<and>
      list_all2 step_segment (take (length segs) (step # rest)) segs \<and>
      (step # rest = [] \<or> segs \<noteq> [])"
    using seg by (intro exI[of _ "[seg]"]) simp
  show ?case
  proof (cases out)
    case (Inl e)
    with it one show ?thesis by simp
  next
    case (Inr v)
    obtain stop results' ctx' where v: "v = (stop, results', ctx')" by (cases v)
    show ?thesis
    proof (cases stop)
      case True
      with it Inr v one show ?thesis by simp
    next
      case False
      from Cons.IH[of results' ctx' s1] obtain segs where
        segs: "snd (snd (workflow_loop env rest results' ctx' s1)) = snd s1 @ concat segs"
          "length segs \<le> length rest"
          "list_all2 step_segment (take (length segs) rest) segs" by blast
      from it Inr v False
      have "snd (snd (workflow_loop env (step # rest) results ctx s)) =
            snd (snd (workflow_loop env rest results' ctx' s1))"
        by (simp split: prod.splits)
      with seg segs show ?thesis
        by (intro exI[of _ "seg # segs"]) simp
    qed
  qed
qed

text \<open>When the loop ends with successful results only, it has been through the whole
  list.\<close>

lemma workflow_loop_complete:
  assumes "fst (fst (workflow_loop env steps results ctx s)) = Inr (results', ctx')"
      and "list_all succeeded results'"
  shows "\<exists>segs. snd (snd (workflow_loop env steps results ctx s)) = snd s @ concat segs \<and>
           list_all2 step_segment steps segs"
  using assms
proof (induction steps arbitrary: results ctx s)
  case Nil
  show ?case by (intro exI[of _ "[]"]) simp
next
  case (Cons step rest)
  obtain out step' s1 where it: "workflow_iteration env step results ctx s = ((out, step'), s1)"
    by (cases "workflow_iteration env step results ctx s") auto
  from workflow_iteration_segment[of env step results ctx s] it obtain seg where
    seg: "snd s1 = snd s @ seg" "step_segment step seg" by auto
  show ?case
  proof (cases out)
    case (Inl e)
    with it Cons.prems(1) show ?thesis by simp
  next
    case (Inr v)
    obtain stop rs c where v: "v = (stop, rs, c)" by (cases v)
    from workflow_iteration_outcome[of env step results ctx s stop rs c] it Inr v
    obtain r where r: "rs = results @ [r]" "stop = (\<not> succeeded r)" by auto
    show ?thesis
    proof (cases stop)
      case True
      with it Inr v Cons.prems(1) have "results' = rs" by simp
      with r True Cons.prems(2) show ?thesis by simp
    next
      case False
      from it Inr v False
      have loop: "workflow_loop env (step # rest) results ctx s =
          (case workflow_loop env rest rs c s1 of
             ((out, rest'), s'') \<Rightarrow> ((out, step' # rest'), s''))"
        by simp
      with Cons.prems(1)
      have "fst (fst (workflow_loop env rest rs c s1)) = Inr (results', ctx')"
        by (simp split: prod.splits)
      from Cons.IH[OF this Cons.prems(2)] obtain segs where
        segs: "snd (snd (workflow_loop env rest rs c s1)) = snd s1 @ concat segs"
          "list_all2 step_segment rest segs" by blast
      from loop have "snd (snd (workflow_loop env (step # rest) results ctx s)) =
            snd (snd (workflow_loop env rest rs c s1))"
        by (simp split: prod.splits)
      with seg segs show ?thesis
        by (intro exI[of _ "seg # segs"]) simp
    qed
  qed
qed

lemma execute_workflow_state:
  "snd (execute_workflow env workflow_steps context s) =
   snd (workflow_loop env workflow_steps [] (case context of None \<Rightarrow> [] | Some c \<Rightarrow> c) s)"
  by (simp add: execute_workflow_unfold split: prod.splits sum.splits)

text \<open>A report that says \<^verbatim>\<open>workflow_success\<close> comes from a loop that ended with
  successful results only.\<close>

lemma count_successes_all:
  "count_successes rs = Inr (length rs) \<Longrightarrow> list_all succeeded rs"
proof -
  assume "count_successes rs = Inr (length rs)"
  from count_successes_sound[OF this] have "length (filter succeeded rs) = length rs" by simp
  then show ?thesis
    by (metis filter_id_conv length_filter_less list_all_iff nat_neq_iff)
qed

lemma successful_report_loop:
  assumes "dict_get (fst (fst (execute_workflow env workflow_steps context s)))
             ''workflow_success'' PNone = PBool True"
  shows "\<exists>results ctx.
           fst (fst (workflow_loop env workflow_steps []
                       (case context of None \<Rightarrow> [] | Some c \<Rightarrow> c) s)) = Inr (results, ctx) \<and>
           list_all succeeded results"
proof -
  let ?loop = "workflow_loop env workflow_steps [] (case context of None \<Rightarrow> [] | Some c \<Rightarrow> c) s"
  obtain out after s' where l: "?loop = ((out, after), s')"
    by (cases ?loop) auto
  show ?thesis
  proof (cases out)
    case (Inl e)
    with l assms show ?thesis
      by (simp add: execute_workflow_unfold error_report_def dict_get_def)
  next
    case (Inr v)
    obtain results ctx where v: "v = (results, ctx)" by (cases v)
    from l Inr v assms have "count_successes results = Inr (length results)"
      by (auto simp: execute_workflow_unfold error_report_def dict_get_def
          split: sum.splits if_splits)
    from count_successes_all[OF this] l Inr v show ?thesis by simp
  qed
qed

section \<open>The click loop\<close>

lemma take_screenshot_trace:
  "\<exists>p p' w'. take_screenshot env (w, tr) = (p, (w', tr @ [Screenshot p']))"
proof -
  obtain t w1 where c: "clock_now env w = (t, w1)" by (cases "clock_now env w")
  obtain a w2 where
    b: "b_screenshot env (''screenshots/screenshot_'' @ strftime t @ ''.png'') w1 = (a, w2)"
    by (cases "b_screenshot env (''screenshots/screenshot_'' @ strftime t @ ''.png'') w1")
  from c b show ?thesis
    by (cases a) (simp_all add: take_screenshot_def io_apply Let_def)
qed

text \<open>One candidate of \<^verbatim>\<open>_click_element\<close>. If the click raises, the loop goes on. If it
  returns and the wait does not raise, the function returns with this candidate.\<close>

lemma click_try_selector_miss:
  assumes "b_click env sel w = (Inl e, w1)"
  shows "click_try_selector env parameters sel (w, tr) = (Inr None, (w1, tr @ [Click sel False]))"
  using assms by (simp add: click_try_selector_def io_apply)

lemma click_try_selector_hit:
  assumes "b_click env sel w = (Inr u, w1)"
      and "py_gt_zero (dict_get pd ''wait_time'' (PInt 1000)) = Inr positive"
      and "positive \<longrightarrow> py_div_1000 (dict_get pd ''wait_time'' (PInt 1000)) = Inr seconds"
  shows "\<exists>p p' w'. click_try_selector env (PDict pd) sel (w, tr) =
           (Inr (Some [(''success'', PBool True),
                       (''data'', PDict [(''selector'', sel), (''action'', PStr ''clicked'')]),
                       (''screenshot'', PStr p)]),
            (w', tr @ Click sel True # (if positive then [Sleep seconds] else []) @
                 [Screenshot p']))"
proof (cases positive)
  case True
  from take_screenshot_trace[of env "do_sleep env seconds w1" "tr @ [Click sel True, Sleep seconds]"]
  obtain p p' w' where "take_screenshot env
      (do_sleep env seconds w1, tr @ [Click sel True, Sleep seconds]) =
      (p, (w', (tr @ [Click sel True, Sleep seconds]) @ [Screenshot p']))" by blast
  with assms True show ?thesis
    by (simp add: click_try_selector_def io_apply)
next
  case False
  from take_screenshot_trace[of env w1 "tr @ [Click sel True]"]
  obtain p p' w' where "take_screenshot env (w1, tr @ [Click sel True]) =
      (p, (w', (tr @ [Click sel True]) @ [Screenshot p']))" by blast
  with assms False show ?thesis
    by (simp add: click_try_selector_def io_apply)
qed

text \<open>The loop over the candidates: every click raises, or the clicks before the \<open>k\<close>-th
  candidate raise and the click on the \<open>k\<close>-th returns.\<close>

lemma click_loop_cases:
  assumes "py_gt_zero (dict_get pd ''wait_time'' (PInt 1000)) = Inr positive"
      and "positive \<longrightarrow> py_div_1000 (dict_get pd ''wait_time'' (PInt 1000)) = Inr seconds"
  shows "(\<exists>s1. for_each (click_try_selector env (PDict pd)) sels s = (Inr None, s1) \<and>
               snd s1 = snd s @ map (\<lambda>c. Click c False) sels) \<or>
         (\<exists>k p p' s1. k < length sels \<and>
            for_each (click_try_selector env (PDict pd)) sels s =
              (Inr (Some [(''success'', PBool True),
                          (''data'', PDict [(''selector'', sels ! k),
                                            (''action'', PStr ''clicked'')]),
                          (''screenshot'', PStr p)]), s1) \<and>
            snd s1 = snd s @ map (\<lambda>c. Click c False) (take k sels) @
                     Click (sels ! k) True # (if positive then [Sleep seconds] else []) @
                     [Screenshot p'])"
proof (induction sels arbitrary: s)
  case Nil
  show ?case by simp
next
  case (Cons sel sels)
  obtain w tr where s: "s = (w, tr)" by (cases s)
  obtain a w1 where bc: "b_click env sel w = (a, w1)" by (cases "b_click env sel w")
  show ?case
  proof (cases a)
    case (Inl e)
    from click_try_selector_miss[OF bc[unfolded Inl], of "PDict pd" tr]
    have miss: "click_try_selector env (PDict pd) sel (w, tr) =
        (Inr None, (w1, tr @ [Click sel False]))" .
    from Cons.IH[of "(w1, tr @ [Click sel False])"] show ?thesis
    proof
      assume "\<exists>s1. for_each (click_try_selector env (PDict pd)) sels
            (w1, tr @ [Click sel False]) = (Inr None, s1) \<and>
          snd s1 = snd (w1, tr @ [Click sel False]) @ map (\<lambda>c. Click c False) sels"
      then obtain s1 where "for_each (click_try_selector env (PDict pd)) sels
            (w1, tr @ [Click sel False]) = (Inr None, s1)"
          "snd s1 = (tr @ [Click sel False]) @ map (\<lambda>c. Click c False) sels" by auto
      with miss show ?thesis
        by (intro disjI1 exI[of _ s1]) (simp add: s)
    next
      assume "\<exists>k p p' s1. k < length sels \<and>
          for_each (click_try_selector env (PDict pd)) sels (w1, tr @ [Click sel False]) =
            (Inr (Some [(''success'', PBool True),
                        (''data'', PDict [(''selector'', sels ! k),
                                          (''action'', PStr ''clicked'')]),
                        (''screenshot'', PStr p)]), s1) \<and>
          snd s1 = snd (w1, tr @ [Click sel False]) @ map (\<lambda>c. Click c False) (take k sels) @
                   Click (sels ! k) True # (if positive then [Sleep seconds] else []) @
                   [Screenshot p']"
      then obtain k p p' s1 where k: "k < length sels"
        "for_each (click_try_selector env (PDict pd)) sels (w1, tr @ [Click sel False]) =
            (Inr (Some [(''success'', PBool True),
                        (''data'', PDict [(''selector'', sels ! k),
                                          (''action'', PStr ''clicked'')]),
                        (''screenshot'', PStr p)]), s1)"
        "snd s1 = (tr @ [Click sel False]) @ map (\<lambda>c. Click c False) (take k sels) @
                   Click (sels ! k) True # (if positive then [Sleep seconds] else []) @
                   [Screenshot p']" by auto
      with miss show ?thesis
        by (intro disjI2 exI[of _ "Suc k"] exI[of _ p] exI[of _ p'] exI[of _ s1])
           (simp add: s)
    qed
  next
    case (Inr u)
    from click_try_selector_hit[OF bc[unfolded Inr] assms, of tr]
    obtain p p' w' where "click_try_selector env (PDict pd) sel (w, tr) =
           (Inr (Some [(''success'', PBool True),
                       (''data'', PDict [(''selector'', sel), (''action'', PStr ''clicked'')]),
                       (''screenshot'', PStr p)]),
            (w', tr @ Click sel True # (if positive then [Sleep seconds] else []) @
                 [Screenshot p']))" by blast
    then show ?thesis
      by (intro disjI2 exI[of _ 0] exI[of _ p] exI[of _ p']
            exI[of _ "(w', tr @ Click sel True # (if positive then [Sleep seconds] else []) @
                 [Screenshot p'])"])
         (simp add: s)
  qed
qed

text \<open>
  If the wait raises, the exception is caught by the \<^verbatim>\<open>except\<close> of the loop like one
  of the click: with a \<^verbatim>\<open>wait_time\<close> whose division by 1000 overflows, the engine
  clicks \<^verbatim>\<open>#a\<close> and \<^verbatim>\<open>#b\<close> although both clicks return, and reports a failure.
\<close>

lemma click_goes_on_when_the_wait_raises:
  "click_element (example_env [] ''manual_intervention'') (PStr ''#a'')
     (PDict [(''fallback_selectors'', PList [PStr ''#b'']), (''wait_time'', PInt (10 ^ 400))])
     (0, []) =
   (failure ''AI could not find the specified element'',
    (1, [Click (PStr ''#a'') True, Click (PStr ''#b'') True, Screenshot (shot 0),
         AnalyzeScreenshot (shot 0) ''Find and click element: #a'']))"
  by (simp add: engine_defs example_simps)

text \<open>The AI-assisted search starts with a screenshot and the question to the vision
  advisor.\<close>

lemma ai_assisted_click_trace:
  "\<exists>p p' later.
     snd (snd (ai_assisted_click env element_description parameters s)) =
       snd s @ Screenshot p #
         AnalyzeScreenshot p' (''Find and click element: '' @ py_str env element_description) #
         later"
proof -
  obtain w tr where s: "s = (w, tr)" by (cases s)
  from take_screenshot_trace[of env w tr] obtain p' p w1 where
    shot: "take_screenshot env (w, tr) = (p', (w1, tr @ [Screenshot p]))" by blast
  let ?task = "''Find and click element: '' @ py_str env element_description"
  obtain a w2 where an: "ai_analyze_screenshot env p' ?task w1 = (a, w2)"
    by (cases "ai_analyze_screenshot env p' ?task w1")
  show ?thesis
  proof (cases a)
    case (Inl e)
    with shot an show ?thesis
      by (simp add: s ai_assisted_click_def io_apply Let_def)
  next
    case (Inr analysis)
    let ?rest = "then_do (lift (py_iter (dict_get analysis ''identified_elements'' (PList []))))
          (\<lambda>identified_elements.
        then_do (for_each (ai_try_element env element_description p') identified_elements)
          (\<lambda>clicked. case clicked of
             Some r \<Rightarrow> ret r
           | None \<Rightarrow> ret (failure ''AI could not find the specified element'')))"
    have "emits plain ?rest"
      by (intro emits_rules emits_ai_try)
    from emitsD[OF this, of "(w2, tr @ [Screenshot p, AnalyzeScreenshot p' ?task])"]
    obtain later where
      "snd (snd (?rest (w2, tr @ [Screenshot p, AnalyzeScreenshot p' ?task]))) =
         (tr @ [Screenshot p, AnalyzeScreenshot p' ?task]) @ later" by auto
    with shot an Inr show ?thesis
      by (auto simp: s ai_assisted_click_def io_apply Let_def split: prod.splits sum.splits)
  qed
qed

section \<open>Two runs side by side\<close>

lemma relatedI:
  "(\<And>s1 s2. R (fst s1) (fst s2) \<Longrightarrow>
      Q (fst (m1 s1)) (fst (m2 s2)) \<and> R (fst (snd (m1 s1))) (fst (snd (m2 s2)))) \<Longrightarrow>
   related R Q m1 m2"
  unfolding related_def by blast

lemma relatedD:
  "related R Q m1 m2 \<Longrightarrow> R (fst s1) (fst s2) \<Longrightarrow>
   Q (fst (m1 s1)) (fst (m2 s2)) \<and> R (fst (snd (m1 s1))) (fst (snd (m2 s2)))"
  unfolding related_def by blast

lemma rel_ret: "Q x y \<Longrightarrow> related R (rel_sum (=) Q) (ret x) (ret y)"
  by (simp add: related_def ret_def)

lemma rel_lift: "a1 = a2 \<Longrightarrow> related R (rel_sum (=) (=)) (lift a1) (lift a2)"
  by (simp add: related_def lift_def sum.rel_eq)

lemma rel_then:
  fixes R :: "'w \<Rightarrow> 'w \<Rightarrow> bool"
  assumes "related R (rel_sum (=) Q1) m1 m2"
      and "\<And>x y. Q1 x y \<Longrightarrow> related R (rel_sum (=) Q) (f1 x) (f2 y)"
  shows "related R (rel_sum (=) Q) (then_do m1 f1) (then_do m2 f2)"
proof (rule relatedI)
  fix s1 s2 :: "'w st"
  assume R: "R (fst s1) (fst s2)"
  obtain r1 t1 where m1: "m1 s1 = (r1, t1)" by (cases "m1 s1")
  obtain r2 t2 where m2: "m2 s2 = (r2, t2)" by (cases "m2 s2")
  from relatedD[OF assms(1) R] m1 m2 have q1: "rel_sum (=) Q1 r1 r2" and R': "R (fst t1) (fst t2)"
    by simp_all
  show "rel_sum (=) Q (fst (then_do m1 f1 s1)) (fst (then_do m2 f2 s2)) \<and>
        R (fst (snd (then_do m1 f1 s1))) (fst (snd (then_do m2 f2 s2)))"
  proof (cases r1)
    case (Inl e1)
    with q1 m1 m2 R' show ?thesis by (cases r2) (simp_all add: then_do_apply)
  next
    case (Inr x)
    with q1 obtain y where y: "r2 = Inr y" "Q1 x y" by (cases r2) simp_all
    from relatedD[OF assms(2)[OF y(2)] R'] m1 m2 Inr y show ?thesis
      by (simp add: then_do_apply)
  qed
qed

lemma rel_then_same:
  assumes "related R (rel_sum (=) (=)) m1 m2"
      and "\<And>x. related R (rel_sum (=) Q) (f1 x) (f2 x)"
  shows "related R (rel_sum (=) Q) (then_do m1 f1) (then_do m2 f2)"
  by (rule rel_then[OF assms(1)]) (simp add: assms(2))

lemma rel_try:
  fixes R :: "'w \<Rightarrow> 'w \<Rightarrow> bool"
  assumes "related R (rel_sum (=) Q) m1 m2" and "\<And>e. Q (h1 e) (h2 e)"
  shows "related R Q (try_except m1 h1) (try_except m2 h2)"
proof (rule relatedI)
  fix s1 s2 :: "'w st"
  assume R: "R (fst s1) (fst s2)"
  obtain r1 t1 where m1: "m1 s1 = (r1, t1)" by (cases "m1 s1")
  obtain r2 t2 where m2: "m2 s2 = (r2, t2)" by (cases "m2 s2")
  from relatedD[OF assms(1) R] m1 m2 have q: "rel_sum (=) Q r1 r2" and R': "R (fst t1) (fst t2)"
    by simp_all
  from q show "Q (fst (try_except m1 h1 s1)) (fst (try_except m2 h2 s2)) \<and>
        R (fst (snd (try_except m1 h1 s1))) (fst (snd (try_except m2 h2 s2)))"
    using m1 m2 R' assms(2) by (cases r1; cases r2) (simp_all add: try_except_apply)
qed

lemma rel_ok: "related R Q m1 m2 \<Longrightarrow> related R (rel_sum (=) Q) (ok m1) (ok m2)"
  unfolding related_def ok_def by (simp split: prod.splits) (metis fst_conv snd_conv)

lemma rel_attempt:
  fixes R :: "'w \<Rightarrow> 'w \<Rightarrow> bool"
  assumes "related R (rel_sum (=) Q) m1 m2"
  shows "related R (rel_sum (=) (rel_option Q)) (attempt m1) (attempt m2)"
proof (rule relatedI)
  fix s1 s2 :: "'w st"
  assume R: "R (fst s1) (fst s2)"
  obtain r1 t1 where m1: "m1 s1 = (r1, t1)" by (cases "m1 s1")
  obtain r2 t2 where m2: "m2 s2 = (r2, t2)" by (cases "m2 s2")
  from relatedD[OF assms(1) R] m1 m2 have q: "rel_sum (=) Q r1 r2" and R': "R (fst t1) (fst t2)"
    by simp_all
  from q show "rel_sum (=) (rel_option Q) (fst (attempt m1 s1)) (fst (attempt m2 s2)) \<and>
        R (fst (snd (attempt m1 s1))) (fst (snd (attempt m2 s2)))"
    using m1 m2 R' by (cases r1; cases r2) (simp_all add: attempt_apply)
qed

lemma rel_for_each:
  fixes R :: "'w \<Rightarrow> 'w \<Rightarrow> bool"
  assumes "\<And>x. related R (rel_sum (=) (rel_option Q)) (b1 x) (b2 x)"
  shows "related R (rel_sum (=) (rel_option Q)) (for_each b1 xs) (for_each b2 xs)"
proof (rule relatedI)
  fix s1 s2 :: "'w st"
  assume "R (fst s1) (fst s2)"
  then show "rel_sum (=) (rel_option Q) (fst (for_each b1 xs s1)) (fst (for_each b2 xs s2)) \<and>
        R (fst (snd (for_each b1 xs s1))) (fst (snd (for_each b2 xs s2)))"
  proof (induction xs arbitrary: s1 s2)
    case Nil
    then show ?case by simp
  next
    case (Cons x xs)
    obtain r1 t1 where m1: "b1 x s1 = (r1, t1)" by (cases "b1 x s1")
    obtain r2 t2 where m2: "b2 x s2 = (r2, t2)" by (cases "b2 x s2")
    from relatedD[OF assms Cons.prems, of x] m1 m2
    have q: "rel_sum (=) (rel_option Q) r1 r2" and R': "R (fst t1) (fst t2)" by simp_all
    show ?case
    proof (cases r1)
      case (Inl e1)
      with q m1 m2 R' show ?thesis by (cases r2) simp_all
    next
      case (Inr v1)
      with q obtain v2 where v2: "r2 = Inr v2" "rel_option Q v1 v2" by (cases r2) simp_all
      show ?thesis
      proof (cases v1)
        case None
        with v2 have "v2 = None" by simp
        with None Inr v2 m1 m2 Cons.IH[OF R'] show ?thesis by simp
      next
        case (Some a)
        with v2 obtain b where "v2 = Some b" "Q a b" by (cases v2) simp_all
        with Some Inr v2 m1 m2 R' show ?thesis by simp
      qed
    qed
  qed
qed

lemma rel_call: "blind_op R f g \<Longrightarrow> related R (rel_sum (=) (=)) (call e1 f) (call e2 g)"
  unfolding related_def blind_op_def call_def
  by (auto simp: sum.rel_eq split: prod.splits) (metis fst_conv snd_conv)+

lemma rel_click_op:
  fixes R :: "'w \<Rightarrow> 'w \<Rightarrow> bool"
  assumes "blind_op R (b_click env x) (b_click env x)"
  shows "related R (rel_sum (=) (=)) (click env x) (click env x)"
proof (rule relatedI)
  fix s1 s2 :: "'w st"
  assume R: "R (fst s1) (fst s2)"
  obtain a1 u1 where b1: "b_click env x (fst s1) = (a1, u1)" by (cases "b_click env x (fst s1)")
  obtain a2 u2 where b2: "b_click env x (fst s2) = (a2, u2)" by (cases "b_click env x (fst s2)")
  from assms R b1 b2 have "a1 = a2" and "R u1 u2"
    unfolding blind_op_def by (metis fst_conv, metis snd_conv)
  with b1 b2 show "rel_sum (=) (=) (fst (click env x s1)) (fst (click env x s2)) \<and>
        R (fst (snd (click env x s1))) (fst (snd (click env x s2)))"
    by (auto simp: click_def split: sum.splits)
qed

lemma rel_note: "related R (rel_sum (=) (=)) (note_event e1) (note_event e2)"
  by (simp add: related_def note_event_def)

lemma rel_clock:
  "clock_blind env R \<Longrightarrow> related R (rel_sum (=) any_two) (read_clock env) (read_clock env)"
proof -
  assume "clock_blind env R"
  then have "\<forall>w1 w2. R w1 w2 \<longrightarrow> R (snd (clock_now env w1)) (snd (clock_now env w2))"
    unfolding clock_blind_def by simp
  then show ?thesis
    unfolding related_def read_clock_def any_two_def
    by (auto split: prod.splits) (metis snd_conv)
qed

lemma rel_sleep:
  "clock_blind env R \<Longrightarrow> related R (rel_sum (=) (=)) (sleep env q) (sleep env q)"
proof -
  assume "clock_blind env R"
  then have "\<forall>q w1 w2. R w1 w2 \<longrightarrow> R (do_sleep env q w1) (do_sleep env q w2)"
    unfolding clock_blind_def by simp
  then show ?thesis
    unfolding related_def sleep_def call_def by auto
qed

lemma rel_if:
  "(c \<Longrightarrow> related R Q a1 a2) \<Longrightarrow> (\<not> c \<Longrightarrow> related R Q b1 b2) \<Longrightarrow>
   related R Q (if c then a1 else b1) (if c then a2 else b2)"
  by simp

lemma rel_take_screenshot:
  fixes R :: "'w \<Rightarrow> 'w \<Rightarrow> bool"
  assumes "clock_blind env R"
  shows "related R sim_str (take_screenshot env) (take_screenshot env)"
proof (rule relatedI)
  fix s1 s2 :: "'w st"
  assume R: "R (fst s1) (fst s2)"
  obtain w1 tr1 where s1: "s1 = (w1, tr1)" by (cases s1)
  obtain w2 tr2 where s2: "s2 = (w2, tr2)" by (cases s2)
  obtain t1 v1 where c1: "clock_now env w1 = (t1, v1)" by (cases "clock_now env w1")
  obtain t2 v2 where c2: "clock_now env w2 = (t2, v2)" by (cases "clock_now env w2")
  from assms have "\<forall>w1 w2. R w1 w2 \<longrightarrow> R (snd (clock_now env w1)) (snd (clock_now env w2))"
    unfolding clock_blind_def by simp
  with R s1 s2 have "R (snd (clock_now env w1)) (snd (clock_now env w2))" by simp
  with c1 c2 have Rv: "R v1 v2" by simp
  let ?p1 = "''screenshots/screenshot_'' @ strftime t1 @ ''.png''"
  let ?p2 = "''screenshots/screenshot_'' @ strftime t2 @ ''.png''"
  from assms have "\<forall>p1 p2 w1 w2. R w1 w2 \<longrightarrow>
         isl (fst (b_screenshot env p1 w1)) = isl (fst (b_screenshot env p2 w2)) \<and>
         R (snd (b_screenshot env p1 w1)) (snd (b_screenshot env p2 w2))"
    unfolding clock_blind_def by simp
  with Rv have shot: "isl (fst (b_screenshot env ?p1 v1)) = isl (fst (b_screenshot env ?p2 v2))"
    "R (snd (b_screenshot env ?p1 v1)) (snd (b_screenshot env ?p2 v2))"
    by simp_all
  obtain a1 u1 where b1: "b_screenshot env ?p1 v1 = (a1, u1)" by (cases "b_screenshot env ?p1 v1")
  obtain a2 u2 where b2: "b_screenshot env ?p2 v2 = (a2, u2)" by (cases "b_screenshot env ?p2 v2")
  from shot b1 b2 s1 s2 c1 c2
  show "sim_str (fst (take_screenshot env s1)) (fst (take_screenshot env s2)) \<and>
        R (fst (snd (take_screenshot env s1))) (fst (snd (take_screenshot env s2)))"
    by (cases a1; cases a2) (simp_all add: take_screenshot_def io_apply Let_def sim_str_def)
qed

lemma rel_then_shot:
  assumes "clock_blind env R"
      and "\<And>p1 p2. sim_str p1 p2 \<Longrightarrow> related R (rel_sum (=) Q) (f1 p1) (f2 p2)"
  shows "related R (rel_sum (=) Q) (then_do (ok (take_screenshot env)) f1)
           (then_do (ok (take_screenshot env)) f2)"
  by (rule rel_then[OF rel_ok[OF rel_take_screenshot[OF assms(1)]] assms(2)])

lemma rel_then_clock:
  assumes "clock_blind env R"
      and "\<And>t1 t2. related R (rel_sum (=) Q) (f1 t1) (f2 t2)"
  shows "related R (rel_sum (=) Q) (then_do (read_clock env) f1) (then_do (read_clock env) f2)"
  by (rule rel_then[OF rel_clock[OF assms(1)]]) (rule assms(2))

lemma rel_then_call:
  assumes "blind_op R f g" and "\<And>x. related R (rel_sum (=) Q) (k1 x) (k2 x)"
  shows "related R (rel_sum (=) Q) (then_do (call e1 f) k1) (then_do (call e2 g) k2)"
  by (rule rel_then_same[OF rel_call[OF assms(1)] assms(2)])

lemma rel_then_click:
  assumes "blind_op R (b_click env x) (b_click env x)"
      and "\<And>u. related R (rel_sum (=) Q) (k1 u) (k2 u)"
  shows "related R (rel_sum (=) Q) (then_do (click env x) k1) (then_do (click env x) k2)"
  by (rule rel_then_same[OF rel_click_op[OF assms(1)] assms(2)])

lemma rel_then_lift:
  assumes "a1 = a2" and "\<And>x. related R (rel_sum (=) Q) (k1 x) (k2 x)"
  shows "related R (rel_sum (=) Q) (then_do (lift a1) k1) (then_do (lift a2) k2)"
  by (rule rel_then_same[OF rel_lift[OF assms(1)] assms(2)])

lemma rel_then_if:
  assumes "related R (rel_sum (=) (=)) (if c then a1 else b1) (if c then a2 else b2)"
      and "\<And>x. related R (rel_sum (=) Q) (k1 x) (k2 x)"
  shows "related R (rel_sum (=) Q) (then_do (if c then a1 else b1) k1)
           (then_do (if c then a2 else b2) k2)"
  by (rule rel_then_same[OF assms])

lemma sim_res_refl: "sim_res r r"
  by (simp add: sim_res_def)

lemma sim_res_success:
  "sim_str p1 p2 \<Longrightarrow>
   sim_res [(''success'', PBool True), (''data'', d), (''screenshot'', PStr p1)]
           [(''success'', PBool True), (''data'', d), (''screenshot'', PStr p2)]"
  by (simp add: sim_res_def erase_result_def erase_entry_def sim_str_def)

lemma blindD:
  assumes "clock_blind env R"
  shows "blind_op R (ai_analyze_screenshot env p1 task) (ai_analyze_screenshot env p2 task)"
    "blind_op R (ai_generate_error_recovery_strategy env e c)
       (ai_generate_error_recovery_strategy env e c)"
    "blind_op R (b_goto env x) (b_goto env x)"
    "blind_op R (b_title env) (b_title env)"
    "blind_op R (b_click env x) (b_click env x)"
    "blind_op R (b_clear env x) (b_clear env x)"
    "blind_op R (b_type env x y) (b_type env x y)"
    "blind_op R (b_text env x) (b_text env x)"
    "blind_op R (b_attribute env x y) (b_attribute env x y)"
    "blind_op R (b_text_all env x) (b_text_all env x)"
    "blind_op R (b_wait_for_element env x y) (b_wait_for_element env x y)"
    "blind_op R (b_wait_for_text env x y) (b_wait_for_text env x y)"
    "blind_op R (b_exists env x) (b_exists env x)"
    "blind_op R (b_evaluate env x) (b_evaluate env x)"
  using assms unfolding clock_blind_def by simp_all

lemmas rel_rules =
  rel_try rel_then_shot rel_then_clock rel_then_call rel_then_lift rel_then_if rel_if rel_ret
  rel_call rel_sleep rel_lift

lemma rel_navigate:
  assumes "clock_blind env R"
  shows "related R sim_res (navigate_to_url env url p) (navigate_to_url env url p)"
  unfolding navigate_to_url_def
  by (intro rel_rules assms blindD[OF assms] sim_res_success sim_res_refl refl; assumption?)

lemma erase_dict_set:
  "erase_result (dict_set r k v) = dict_set (erase_result r) k (snd (erase_entry (k, v)))"
  by (induction r) (auto simp: erase_result_def erase_entry_def)

lemma map_of_erase:
  "map_of (erase_result r) k = map_option (\<lambda>v. snd (erase_entry (k, v))) (map_of r k)"
  by (induction r) (auto simp: erase_result_def erase_entry_def)

lemma sim_res_map_of:
  assumes "sim_res r1 r2" and "k \<noteq> ''screenshot''" and "k \<noteq> ''duration''"
  shows "map_of r1 k = map_of r2 k"
proof -
  from assms(1) have "map_of (erase_result r1) k = map_of (erase_result r2) k"
    by (simp add: sim_res_def)
  with assms(2,3) show ?thesis
    by (cases "map_of r1 k"; cases "map_of r2 k") (simp_all add: map_of_erase erase_entry_def)
qed

lemma sim_res_index:
  "sim_res r1 r2 \<Longrightarrow> k \<noteq> ''screenshot'' \<Longrightarrow> k \<noteq> ''duration'' \<Longrightarrow>
   dict_index r1 k = dict_index r2 k"
  by (simp add: dict_index_def sim_res_map_of)

lemma sim_res_get:
  "sim_res r1 r2 \<Longrightarrow> k \<noteq> ''screenshot'' \<Longrightarrow> k \<noteq> ''duration'' \<Longrightarrow>
   dict_get r1 k d = dict_get r2 k d"
  by (simp add: dict_get_def sim_res_map_of)

lemma sim_res_duration:
  "sim_res r1 r2 \<Longrightarrow> sim_res (dict_set r1 ''duration'' v1) (dict_set r2 ''duration'' v2)"
  by (simp add: sim_res_def erase_dict_set erase_entry_def)

lemma sim_res_screenshot:
  "sim_res r1 r2 \<Longrightarrow> sim_str p1 p2 \<Longrightarrow>
   sim_res (dict_set r1 ''screenshot'' (PStr p1)) (dict_set r2 ''screenshot'' (PStr p2))"
  by (simp add: sim_res_def erase_dict_set erase_entry_def sim_str_def)

lemma sim_res_duration_success:
  "sim_res r1 r2 \<Longrightarrow>
   dict_index (dict_set r1 ''duration'' v1) ''success'' =
   dict_index (dict_set r2 ''duration'' v2) ''success''"
  by (rule sim_res_index[OF sim_res_duration]) simp_all

lemma rel_ret_opt_none: "related R (rel_sum (=) (rel_option Q)) (ret None) (ret None)"
  by (rule rel_ret) simp

lemma rel_finish_option:
  assumes "rel_option sim_res v1 v2"
      and "related R (rel_sum (=) sim_res) n1 n2"
  shows "related R (rel_sum (=) sim_res)
           (case v1 of Some r \<Rightarrow> ret r | None \<Rightarrow> n1)
           (case v2 of Some r \<Rightarrow> ret r | None \<Rightarrow> n2)"
  using assms by (cases v1; cases v2) (simp_all add: rel_ret)

lemma rel_then_for_each:
  assumes "\<And>x. related R (rel_sum (=) (rel_option sim_res)) (b1 x) (b2 x)"
      and "\<And>v1 v2. rel_option sim_res v1 v2 \<Longrightarrow> related R (rel_sum (=) Q) (k1 v1) (k2 v2)"
  shows "related R (rel_sum (=) Q) (then_do (for_each b1 xs) k1) (then_do (for_each b2 xs) k2)"
  by (rule rel_then[OF rel_for_each[OF assms(1)] assms(2)])

lemma rel_fill:
  assumes "clock_blind env R"
  shows "related R sim_res (fill_form env sel p) (fill_form env sel p)"
  unfolding fill_form_def
  by (intro rel_rules assms blindD[OF assms] sim_res_success sim_res_refl refl; assumption?)

lemma rel_extract:
  assumes "clock_blind env R"
  shows "related R sim_res (extract_data env sel p) (extract_data env sel p)"
  unfolding extract_data_def browser_text_def
  by (intro rel_rules assms blindD[OF assms] sim_res_success sim_res_refl refl; assumption?)

lemma rel_wait:
  assumes "clock_blind env R"
  shows "related R sim_res (wait_action env sel p) (wait_action env sel p)"
  unfolding wait_action_def
  by (intro rel_rules assms blindD[OF assms] sim_res_success sim_res_refl refl; assumption?)

lemma rel_conditional:
  assumes "clock_blind env R"
  shows "related R sim_res (execute_conditional env sel p c) (execute_conditional env sel p c)"
  unfolding execute_conditional_def
  by (intro rel_rules assms blindD[OF assms] sim_res_success sim_res_refl refl; assumption?)

lemma rel_ai_try:
  assumes "clock_blind env R" and "sim_str p1 p2"
  shows "related R (rel_sum (=) (rel_option sim_res))
           (ai_try_element env d p1 element) (ai_try_element env d p2 element)"
  unfolding ai_try_element_def
  by (intro rel_then_lift rel_if rel_attempt rel_then_click rel_ret rel_ret_opt_none
        blindD[OF assms(1)] sim_res_success assms(2) refl)

lemma rel_ai_click:
  assumes "clock_blind env R"
  shows "related R sim_res (ai_assisted_click env d p) (ai_assisted_click env d p)"
  unfolding ai_assisted_click_def Let_def
  by (intro rel_try rel_then_shot rel_then_call rel_then_lift rel_then_for_each rel_ai_try
        rel_finish_option rel_ret assms blindD[OF assms] sim_res_refl refl; assumption?)

lemma rel_click_try:
  assumes "clock_blind env R"
  shows "related R (rel_sum (=) (rel_option sim_res))
           (click_try_selector env p sel) (click_try_selector env p sel)"
  unfolding click_try_selector_def
  by (intro rel_attempt rel_then_click rel_rules assms blindD[OF assms] sim_res_success refl;
      assumption?)

lemma rel_click:
  assumes "clock_blind env R"
  shows "related R sim_res (click_element env sel p) (click_element env sel p)"
  unfolding click_element_def
  by (intro rel_try rel_then_lift rel_then_for_each rel_click_try rel_finish_option rel_ok
        rel_ai_click assms sim_res_refl refl; assumption?)

lemma rel_then_note:
  assumes "\<And>x. related R (rel_sum (=) Q) (k1 x) (k2 x)"
  shows "related R (rel_sum (=) Q) (then_do (note_event e1) k1) (then_do (note_event e2) k2)"
  by (rule rel_then_same[OF rel_note assms])

lemma rel_then_res_if:
  assumes "related R (rel_sum (=) sim_res) (if c then a1 else b1) (if c then a2 else b2)"
      and "\<And>r1 r2. sim_res r1 r2 \<Longrightarrow> related R (rel_sum (=) Q) (k1 r1) (k2 r2)"
  shows "related R (rel_sum (=) Q) (then_do (if c then a1 else b1) k1)
           (then_do (if c then a2 else b2) k2)"
  by (rule rel_then[OF assms])

lemma rel_dispatch:
  assumes "clock_blind env R"
  shows "related R sim_res (execute_workflow_step env step ctx)
           (execute_workflow_step env step ctx)"
  unfolding execute_workflow_step_def Let_def
  by (intro rel_try rel_then_note rel_then_clock rel_then_res_if rel_then_lift rel_then_shot
        rel_if rel_ok rel_ret rel_navigate rel_click rel_fill rel_extract rel_wait
        rel_conditional sim_res_duration_success sim_res_screenshot sim_res_duration
        sim_res_refl assms; assumption?)

lemma rel_try_fallbacks:
  assumes "clock_blind env R"
  shows "related R (rel_prod (rel_option sim_res) (=)) (try_fallbacks env step ctx selectors)
           (try_fallbacks env step ctx selectors)"
proof (cases selectors)
  case Nil
  then show ?thesis by (simp add: related_def)
next
  case (Cons selector rest)
  have "related R sim_res (execute_workflow_step env (dict_set step ''target'' selector) ctx)
          (execute_workflow_step env (dict_set step ''target'' selector) ctx)"
    by (rule rel_dispatch[OF assms])
  then show ?thesis
    unfolding related_def Cons by (simp add: Let_def split: prod.splits) (metis fst_conv snd_conv)
qed

lemma rel_then_sleep:
  assumes "clock_blind env R" and "\<And>x. related R (rel_sum (=) Q) (k1 x) (k2 x)"
  shows "related R (rel_sum (=) Q) (then_do (sleep env q) k1) (then_do (sleep env q) k2)"
  by (rule rel_then_same[OF rel_sleep[OF assms(1)] assms(2)])

lemma rel_then_okres:
  assumes "related R sim_res m1 m2"
      and "\<And>r1 r2. sim_res r1 r2 \<Longrightarrow> related R (rel_sum (=) Q) (k1 r1) (k2 r2)"
  shows "related R (rel_sum (=) Q) (then_do (ok m1) k1) (then_do (ok m2) k2)"
  by (rule rel_then[OF rel_ok[OF assms(1)] assms(2)])

lemma rel_ret_pair:
  "sim_res r1 r2 \<Longrightarrow>
   related R (rel_sum (=) (rel_prod sim_res (=))) (ret (r1, step)) (ret (r2, step))"
  by (rule rel_ret) simp

lemma rel_fallback_branch:
  assumes "clock_blind env R"
  shows "related R (rel_sum (=) (rel_prod sim_res (=)))
     (then_do
        (if c then
           then_do (lift (py_get parameters ''fallback_selectors'' (PList [])))
             (\<lambda>fallback_selectors.
           then_do (lift (py_iter fallback_selectors)) (\<lambda>selectors.
           ok (try_fallbacks env step ctx selectors)))
         else ret (None, step))
        (\<lambda>(retried, step). case retried of
            Some r \<Rightarrow> ret (r, step)
          | None \<Rightarrow> ret (recovery_failed env e, step)))
     (then_do
        (if c then
           then_do (lift (py_get parameters ''fallback_selectors'' (PList [])))
             (\<lambda>fallback_selectors.
           then_do (lift (py_iter fallback_selectors)) (\<lambda>selectors.
           ok (try_fallbacks env step ctx selectors)))
         else ret (None, step))
        (\<lambda>(retried, step). case retried of
            Some r \<Rightarrow> ret (r, step)
          | None \<Rightarrow> ret (recovery_failed env e, step)))"
proof (rule rel_then[where ?Q1.0 = "rel_prod (rel_option sim_res) (=)"])
  show "related R (rel_sum (=) (rel_prod (rel_option sim_res) (=)))
     (if c then
        then_do (lift (py_get parameters ''fallback_selectors'' (PList [])))
          (\<lambda>fallback_selectors.
        then_do (lift (py_iter fallback_selectors)) (\<lambda>selectors.
        ok (try_fallbacks env step ctx selectors)))
      else ret (None, step))
     (if c then
        then_do (lift (py_get parameters ''fallback_selectors'' (PList [])))
          (\<lambda>fallback_selectors.
        then_do (lift (py_iter fallback_selectors)) (\<lambda>selectors.
        ok (try_fallbacks env step ctx selectors)))
      else ret (None, step))"
    by (intro rel_if rel_then_lift rel_ok rel_try_fallbacks rel_ret assms refl) simp
next
  fix v1 v2 :: "pydict option \<times> pydict"
  assume "rel_prod (rel_option sim_res) (=) v1 v2"
  then show "related R (rel_sum (=) (rel_prod sim_res (=)))
     (case v1 of (retried, step) \<Rightarrow>
        case retried of Some r \<Rightarrow> ret (r, step)
        | None \<Rightarrow> ret (recovery_failed env e, step))
     (case v2 of (retried, step) \<Rightarrow>
        case retried of Some r \<Rightarrow> ret (r, step)
        | None \<Rightarrow> ret (recovery_failed env e, step))"
    by (cases v1; cases v2; cases "fst v1"; cases "fst v2")
       (simp_all add: rel_ret_pair sim_res_refl)
qed

lemma rel_handle:
  assumes "clock_blind env R" and "sim_res sr1 sr2"
  shows "related R (rel_prod sim_res (=)) (handle_step_failure env step sr1 ctx)
           (handle_step_failure env step sr2 ctx)"
proof -
  have e: "error_of sr1 = error_of sr2"
    by (rule sim_res_get[OF assms(2)]) simp_all
  have handler: "rel_prod sim_res (=) (failure x, step) (failure x, step)" for x
    by (simp add: sim_res_refl)
  show ?thesis
    unfolding handle_step_failure_def Let_def e
    by (intro rel_try rel_then_lift rel_then_call rel_if rel_then_sleep rel_then_okres
          rel_dispatch rel_ret_pair rel_fallback_branch handler
          blindD[OF assms(1)] assms(1) refl; assumption?)
qed

lemma sim_res_success_index:
  "sim_res r1 r2 \<Longrightarrow> dict_index r1 ''success'' = dict_index r2 ''success''"
  by (rule sim_res_index) simp_all

lemma sim_res_succeeded: "sim_res r1 r2 \<Longrightarrow> succeeded r1 = succeeded r2"
  unfolding succeeded_def by (simp add: sim_res_get)

lemma sim_res_data: "sim_res r1 r2 \<Longrightarrow> dict_get r1 ''data'' d = dict_get r2 ''data'' d"
  by (rule sim_res_get) simp_all

lemma rel_iteration:
  fixes R :: "'w \<Rightarrow> 'w \<Rightarrow> bool"
  assumes blind: "clock_blind env R" and rs: "list_all2 sim_res rs1 rs2"
  shows "related R (rel_prod (rel_sum (=) (rel_prod (=) (rel_prod (list_all2 sim_res) (=)))) (=))
           (workflow_iteration env step rs1 ctx) (workflow_iteration env step rs2 ctx)"
proof (rule relatedI)
  fix s1 s2 :: "'w st"
  assume R: "R (fst s1) (fst s2)"
  obtain r1 t1 where x1: "execute_workflow_step env step ctx s1 = (r1, t1)"
    by (cases "execute_workflow_step env step ctx s1")
  obtain r2 t2 where x2: "execute_workflow_step env step ctx s2 = (r2, t2)"
    by (cases "execute_workflow_step env step ctx s2")
  from relatedD[OF rel_dispatch[OF blind] R, of step ctx] x1 x2
  have sim: "sim_res r1 r2" and R1: "R (fst t1) (fst t2)" by simp_all
  from sim_res_succeeded[OF sim] have same: "succeeded r1 = succeeded r2" .
  let ?Q = "rel_prod (rel_sum (=) (rel_prod (=) (rel_prod (list_all2 sim_res) (=)))) (=)"
  show "?Q (fst (workflow_iteration env step rs1 ctx s1))
           (fst (workflow_iteration env step rs2 ctx s2)) \<and>
        R (fst (snd (workflow_iteration env step rs1 ctx s1)))
          (fst (snd (workflow_iteration env step rs2 ctx s2)))"
  proof (cases "succeeded r1")
    case True
    with same have True2: "succeeded r2" by simp
    from rs sim have "list_all2 sim_res (rs1 @ [r1]) (rs2 @ [r2])"
      by (simp add: list_all2_appendI)
    with workflow_iteration_succeeded[OF x1 True, of rs1]
      workflow_iteration_succeeded[OF x2 True2, of rs2] sim_res_data[OF sim, of PNone] R1
    show ?thesis by (simp split: sum.splits)
  next
    case False
    with same have False2: "\<not> succeeded r2" by simp
    obtain q1 st1 u1 where h1: "handle_step_failure env step r1 ctx t1 = ((q1, st1), u1)"
      by (cases "handle_step_failure env step r1 ctx t1") auto
    obtain q2 st2 u2 where h2: "handle_step_failure env step r2 ctx t2 = ((q2, st2), u2)"
      by (cases "handle_step_failure env step r2 ctx t2") auto
    from relatedD[OF rel_handle[OF blind sim] R1, of step ctx] h1 h2
    have simq: "sim_res q1 q2" and st: "st1 = st2" and R2: "R (fst u1) (fst u2)" by simp_all
    from sim_res_succeeded[OF simq] have sameq: "succeeded q1 = succeeded q2" .
    from rs sim simq sameq
    have "list_all2 sim_res (rs1 @ [if succeeded q1 then q1 else r1])
            (rs2 @ [if succeeded q2 then q2 else r2])"
      by (simp add: list_all2_appendI)
    with workflow_iteration_failed[OF x1 False h1, of rs1]
      workflow_iteration_failed[OF x2 False2 h2, of rs2] sameq st R2
    show ?thesis by simp
  qed
qed

lemma rel_loop:
  fixes R :: "'w \<Rightarrow> 'w \<Rightarrow> bool"
  assumes "clock_blind env R"
  shows "list_all2 sim_res rs1 rs2 \<Longrightarrow> R (fst s1) (fst s2) \<Longrightarrow>
     rel_prod (rel_sum (=) (rel_prod (list_all2 sim_res) (=))) (=)
       (fst (workflow_loop env steps rs1 ctx s1)) (fst (workflow_loop env steps rs2 ctx s2)) \<and>
     R (fst (snd (workflow_loop env steps rs1 ctx s1)))
       (fst (snd (workflow_loop env steps rs2 ctx s2)))"
proof (induction steps arbitrary: rs1 rs2 ctx s1 s2)
  case Nil
  then show ?case by simp
next
  case (Cons step rest)
  obtain o1 a1 t1 where i1: "workflow_iteration env step rs1 ctx s1 = ((o1, a1), t1)"
    by (cases "workflow_iteration env step rs1 ctx s1") auto
  obtain o2 a2 t2 where i2: "workflow_iteration env step rs2 ctx s2 = ((o2, a2), t2)"
    by (cases "workflow_iteration env step rs2 ctx s2") auto
  from relatedD[OF rel_iteration[OF assms Cons.prems(1)] Cons.prems(2), of step ctx] i1 i2
  have q: "rel_sum (=) (rel_prod (=) (rel_prod (list_all2 sim_res) (=))) o1 o2"
    and a: "a1 = a2" and R': "R (fst t1) (fst t2)" by simp_all
  show ?case
  proof (cases o1)
    case (Inl e)
    with q i1 i2 a R' show ?thesis by (cases o2) simp_all
  next
    case (Inr v1)
    with q obtain v2 where v2: "o2 = Inr v2"
      "rel_prod (=) (rel_prod (list_all2 sim_res) (=)) v1 v2" by (cases o2) simp_all
    obtain stop rs1' c1 where v1: "v1 = (stop, rs1', c1)" by (cases v1)
    with v2(2) obtain rs2' where v2': "v2 = (stop, rs2', c1)" "list_all2 sim_res rs1' rs2'"
      by (cases v2) auto
    show ?thesis
    proof (cases stop)
      case True
      with Inr v1 v2 v2' i1 i2 a R' show ?thesis by simp
    next
      case False
      obtain x1 y1 z1 where l1: "workflow_loop env rest rs1' c1 t1 = ((x1, y1), z1)"
        by (cases "workflow_loop env rest rs1' c1 t1") auto
      obtain x2 y2 z2 where l2: "workflow_loop env rest rs2' c1 t2 = ((x2, y2), z2)"
        by (cases "workflow_loop env rest rs2' c1 t2") auto
      from Cons.IH[OF v2'(2) R', of c1] l1 l2
      have "rel_sum (=) (rel_prod (list_all2 sim_res) (=)) x1 x2" "y1 = y2"
        "R (fst z1) (fst z2)" by simp_all
      with False Inr v1 v2 v2' i1 i2 a l1 l2 show ?thesis by simp
    qed
  qed
qed

lemma count_successes_sim:
  "list_all2 sim_res rs1 rs2 \<Longrightarrow> count_successes rs1 = count_successes rs2"
  by (induction rule: list_all2_induct) (simp_all add: sim_res_success_index split: sum.splits)

lemma sim_res_screenshot_index:
  assumes "sim_res r1 r2"
  shows "rel_sum (=) (\<lambda>a b. truthy a = truthy b)
           (dict_index r1 ''screenshot'') (dict_index r2 ''screenshot'')"
proof -
  from assms have "map_of (erase_result r1) ''screenshot'' = map_of (erase_result r2) ''screenshot''"
    by (simp add: sim_res_def)
  then show ?thesis
    by (cases "map_of r1 ''screenshot''"; cases "map_of r2 ''screenshot''")
       (simp_all add: map_of_erase erase_entry_def dict_index_def)
qed

lemma collect_screenshots_sim:
  "list_all2 sim_res rs1 rs2 \<Longrightarrow>
   rel_sum (=) (\<lambda>a b. length a = length b) (collect_screenshots rs1) (collect_screenshots rs2)"
proof (induction rule: list_all2_induct)
  case Nil
  show ?case by simp
next
  case (Cons r1 rs1 r2 rs2)
  from sim_res_screenshot_index[OF Cons.hyps(1)] Cons.IH show ?case
    by (cases "dict_index r1 ''screenshot''"; cases "dict_index r2 ''screenshot''";
        cases "collect_screenshots rs1"; cases "collect_screenshots rs2") simp_all
qed

lemma erase_step_results_sim:
  "list_all2 sim_res rs1 rs2 \<Longrightarrow>
   map erase_value (map PDict rs1) = map erase_value (map PDict rs2)"
  by (induction rule: list_all2_induct) (simp_all add: sim_res_def)

lemma example_env_clock_blind: "clock_blind (example_env broken advice) (\<lambda>w1 w2. True)"
  by (simp add: clock_blind_def blind_op_def example_env_sel unless_broken_def)

section \<open>Steps of an unknown action type\<close>

lemma dict_get_set_other: "k \<noteq> k' \<Longrightarrow> dict_get (dict_set d k v) k' dflt = dict_get d k' dflt"
  by (induction d) (auto simp: dict_get_def)

lemma unknown_dispatch:
  assumes "dict_get step ''action_type'' PNone \<notin> set recognized_actions"
  shows "\<exists>t w'. execute_workflow_step env step ctx (w, tr) =
           (unknown_action_result env step t, (w', tr @ [Dispatch step]))"
proof -
  obtain t1 w1 where c1: "clock_now env w = (t1, w1)" by (cases "clock_now env w")
  obtain t2 w' where c2: "clock_now env w1 = (t2, w')" by (cases "clock_now env w1")
  from assms c1 c2
  have "execute_workflow_step env step ctx (w, tr) =
      (unknown_action_result env step (total_seconds t2 t1), (w', tr @ [Dispatch step]))"
    by (simp add: execute_workflow_step_def recognized_actions_def initial_result_def io_apply
        dict_index_def Let_def unknown_action_result_def)
  then show ?thesis by blast
qed

section \<open>The step list after a run\<close>

text \<open>
  A run that recovers a step by a fallback selector leaves the selector in the step: after
  the run of a navigation and a fill step on \<^verbatim>\<open>#a\<close> with the fallback \<^verbatim>\<open>#b\<close>, the
  list holds the fill step on \<^verbatim>\<open>#b\<close>. A run of the list as it is then does not fail
  on the fill step any more, so it does not go through recovery and, other than the first
  run, it stores the result of the fill step in the context.
\<close>

lemma recovery_rewrites_the_submitted_step:
  "snd (fst (execute_workflow (example_env [PStr ''#a''] ''alternative_approach'')
      [mk_step 1 ''navigate'' ''https://x'' [], fill_step ''#a''] None (0, []))) =
   [mk_step 1 ''navigate'' ''https://x'' [], fill_step ''#b'']"
  by (simp add: engine_defs example_simps time_simps fill_step_def)

lemma run_of_the_rewritten_list_differs:
  "dict_get (fst (fst (execute_workflow (example_env [PStr ''#a''] ''alternative_approach'')
      [mk_step 1 ''navigate'' ''https://x'' [], fill_step ''#a''] None (0, []))))
      ''context'' PNone =
     PDict [(''step_1_result'',
             PDict [(''url'', PStr ''https://x''), (''title'', PStr ''Example'')])] \<and>
   dict_get (fst (fst (execute_workflow (example_env [PStr ''#a''] ''alternative_approach'')
      [mk_step 1 ''navigate'' ''https://x'' [], fill_step ''#b''] None (0, []))))
      ''context'' PNone =
     PDict [(''step_1_result'',
             PDict [(''selector'', PStr ''#b''), (''value'', PStr [])])] \<and>
   advisor_calls (snd (snd (execute_workflow (example_env [PStr ''#a''] ''alternative_approach'')
      [mk_step 1 ''navigate'' ''https://x'' [], fill_step ''#a''] None (0, [])))) = 1 \<and>
   advisor_calls (snd (snd (execute_workflow (example_env [PStr ''#a''] ''alternative_approach'')
      [mk_step 1 ''navigate'' ''https://x'' [], fill_step ''#b''] None (0, [])))) = 0"
  by (simp add: engine_defs example_simps time_simps fill_step_def advisor_calls_def)

section \<open>The claims\<close>

subsection \<open>C1\<close>

text \<open>
  \<^bold>\<open>C1 (as amended).\<close> \<^verbatim>\<open>execute_workflow\<close> checks nothing about
  \<^verbatim>\<open>step_number\<close>. Whatever the steps of the list are, the first thing a run does is
  to dispatch the first step of the list (if there is one); the steps that it dispatches
  are those of a prefix of the list, in the order of the list, each followed by at most one
  retry of itself; and a run that reports \<^verbatim>\<open>workflow_success\<close> has dispatched every
  step of the list.
\<close>

theorem steps_run_in_list_order_unchecked:
  "\<exists>delta.
     snd (snd (execute_workflow env workflow_steps context s)) = snd s @ delta \<and>
     take 1 delta = map Dispatch (take 1 workflow_steps) \<and>
     in_list_order workflow_steps (dispatched delta) \<and>
     (dict_get (fst (fst (execute_workflow env workflow_steps context s)))
        ''workflow_success'' PNone = PBool True \<longrightarrow>
      all_in_list_order workflow_steps (dispatched delta))"
proof -
  let ?c = "case context of None \<Rightarrow> [] | Some c \<Rightarrow> c"
  let ?run = "execute_workflow env workflow_steps context s"
  from workflow_loop_segments[of env workflow_steps "[]" ?c s] obtain segs where
    segs: "snd (snd (workflow_loop env workflow_steps [] ?c s)) = snd s @ concat segs"
      "list_all2 step_segment (take (length segs) workflow_steps) segs"
      "workflow_steps = [] \<or> segs \<noteq> []" by blast
  have tr: "snd (snd ?run) = snd s @ concat segs"
    by (simp add: execute_workflow_state segs(1))
  have first: "take 1 (concat segs) = map Dispatch (take 1 workflow_steps)"
  proof (cases workflow_steps)
    case Nil
    with segs(2) show ?thesis by simp
  next
    case (Cons step rest)
    with segs(3) obtain seg segs' where s': "segs = seg # segs'" by (cases segs) simp_all
    with segs(2) Cons have "step_segment step seg" by simp
    then have "take 1 seg = [Dispatch step]" by (simp add: step_segment_def)
    then obtain later where "seg = Dispatch step # later" by (cases seg) simp_all
    with s' Cons show ?thesis by simp
  qed
  have order: "in_list_order workflow_steps (dispatched (concat segs))"
    by (rule segments_in_list_order[OF segs(2)])
  have all: "all_in_list_order workflow_steps (dispatched (concat segs))"
    if "dict_get (fst (fst ?run)) ''workflow_success'' PNone = PBool True"
  proof -
    from successful_report_loop[OF that] obtain results ctx where
      "fst (fst (workflow_loop env workflow_steps [] ?c s)) = Inr (results, ctx)"
      "list_all succeeded results" by blast
    from workflow_loop_complete[OF this] obtain segs' where
      "snd (snd (workflow_loop env workflow_steps [] ?c s)) = snd s @ concat segs'"
      "list_all2 step_segment workflow_steps segs'" by blast
    with segs(1) segments_all_in_list_order[of workflow_steps segs'] show ?thesis by simp
  qed
  from tr first order all show ?thesis by blast
qed

text \<open>The theorem at the step list numbered 1, 2, 4, which runs to success.\<close>

theorem steps_run_in_list_order_unchecked_witness:
  "dict_get (fst (fst (execute_workflow (example_env [] ''manual_intervention'')
      [mk_step 1 ''navigate'' ''https://x'' [], mk_step 2 ''click'' ''#a'' [],
       mk_step 4 ''extract'' ''#r'' []] None (0, [])))) ''workflow_success'' PNone = PBool True \<and>
   (\<exists>delta.
      snd (snd (execute_workflow (example_env [] ''manual_intervention'')
        [mk_step 1 ''navigate'' ''https://x'' [], mk_step 2 ''click'' ''#a'' [],
         mk_step 4 ''extract'' ''#r'' []] None (0, []))) = delta \<and>
      take 1 delta = [Dispatch (mk_step 1 ''navigate'' ''https://x'' [])] \<and>
      in_list_order
        [mk_step 1 ''navigate'' ''https://x'' [], mk_step 2 ''click'' ''#a'' [],
         mk_step 4 ''extract'' ''#r'' []] (dispatched delta) \<and>
      all_in_list_order
        [mk_step 1 ''navigate'' ''https://x'' [], mk_step 2 ''click'' ''#a'' [],
         mk_step 4 ''extract'' ''#r'' []] (dispatched delta))"
proof -
  have h: "dict_get (fst (fst (execute_workflow (example_env [] ''manual_intervention'')
      [mk_step 1 ''navigate'' ''https://x'' [], mk_step 2 ''click'' ''#a'' [],
       mk_step 4 ''extract'' ''#r'' []] None (0, [])))) ''workflow_success'' PNone = PBool True"
    by (simp add: engine_defs example_simps time_simps)
  from steps_run_in_list_order_unchecked[of "example_env [] ''manual_intervention''"
      "[mk_step 1 ''navigate'' ''https://x'' [], mk_step 2 ''click'' ''#a'' [],
        mk_step 4 ''extract'' ''#r'' []]" None "(0, [])"] h
  show ?thesis by simp
qed

text \<open>
  \<^bold>\<open>C1 (counterexample).\<close> The steps numbered 1, 2, 4 are not rejected: all three are
  dispatched, in this order, and the run is reported as a success with three completed
  steps.
\<close>

theorem gap_in_step_numbers_is_executed:
  "dispatched (snd (snd (execute_workflow (example_env [] ''manual_intervention'')
      [mk_step 1 ''navigate'' ''https://x'' [], mk_step 2 ''click'' ''#a'' [],
       mk_step 4 ''extract'' ''#r'' []] None (0, [])))) =
     [mk_step 1 ''navigate'' ''https://x'' [], mk_step 2 ''click'' ''#a'' [],
      mk_step 4 ''extract'' ''#r'' []] \<and>
   dict_get (fst (fst (execute_workflow (example_env [] ''manual_intervention'')
      [mk_step 1 ''navigate'' ''https://x'' [], mk_step 2 ''click'' ''#a'' [],
       mk_step 4 ''extract'' ''#r'' []] None (0, [])))) ''workflow_success'' PNone
     = PBool True \<and>
   dict_get (fst (fst (execute_workflow (example_env [] ''manual_intervention'')
      [mk_step 1 ''navigate'' ''https://x'' [], mk_step 2 ''click'' ''#a'' [],
       mk_step 4 ''extract'' ''#r'' []] None (0, [])))) ''steps_completed'' PNone = PInt 3"
  by (simp add: engine_defs example_simps time_simps)

subsection \<open>C2\<close>

text \<open>
  \<^bold>\<open>C2.\<close> For every step list (valid or not), the report of \<^verbatim>\<open>execute_workflow\<close> has
  \<^verbatim>\<open>steps_completed <= total_steps\<close> and
  \<^verbatim>\<open>workflow_success == (steps_completed == total_steps)\<close>, where
  \<^verbatim>\<open>steps_completed\<close> is the number of successful entries of \<^verbatim>\<open>step_results\<close>.
\<close>

theorem report_counts_consistent:
  "let report = fst (fst (execute_workflow env workflow_steps context s));
       completed = length (filter succeeded (step_results_of report))
   in \<exists>total.
        dict_get report ''steps_completed'' PNone = PInt (int completed) \<and>
        dict_get report ''total_steps'' PNone = PInt (int total) \<and>
        completed \<le> total \<and>
        dict_get report ''workflow_success'' PNone = PBool (completed = total)"
proof -
  consider
    (err) e where "workflow_steps \<noteq> []"
      "fst (fst (execute_workflow env workflow_steps context s)) = error_report workflow_steps e"
  | (fin) results ctx n shots where "count_successes results = Inr n"
      "fst (fst (execute_workflow env workflow_steps context s)) =
          [(''workflow_success'', PBool (n = length results)),
           (''steps_completed'', PInt (int n)),
           (''total_steps'', PInt (int (length results))),
           (''step_results'', PList (map PDict results)),
           (''context'', PDict ctx),
           (''screenshots'', PList shots)]"
    using execute_workflow_cases[of workflow_steps env "context" s] by blast
  then show ?thesis
  proof cases
    case err
    then show ?thesis
      by (simp add: error_report_def step_results_of_def dict_get_def Let_def)
  next
    case fin
    from count_successes_sound[OF fin(1)]
    have n: "n = length (filter succeeded results)" "n \<le> length results" by simp_all
    have "step_results_of (fst (fst (execute_workflow env workflow_steps context s))) = results"
      by (rule step_results_of_report) (simp add: fin(2))
    with n fin(2) show ?thesis
      by (simp add: dict_get_def Let_def)
  qed
qed

subsection \<open>C3\<close>

text \<open>
  \<^bold>\<open>C3 (the code at the failing input).\<close> Step 2 of 3 fails (a click on a missing
  element) and the advisor recommends manual intervention. The failed result has no
  \<^verbatim>\<open>screenshot\<close> key, so building the screenshot list raises KeyError and the runner
  returns its error report: \<^verbatim>\<open>steps_completed\<close> is 0, \<^verbatim>\<open>step_results\<close> is empty
  and \<^verbatim>\<open>total_steps\<close> is 3, where the claim has 1 completed step and two results.
\<close>

theorem failed_step_discards_partial_results:
  "fst (fst (execute_workflow (example_env [PStr ''#submit''] ''manual_intervention'')
     [mk_step 1 ''navigate'' ''https://x'' [],
      mk_step 2 ''click'' ''#submit'' [],
      mk_step 3 ''extract'' ''#result'' []] None (0, []))) =
   [(''workflow_success'', PBool False),
    (''error'', PStr ([CHR 0x27] @ ''screenshot'' @ [CHR 0x27])),
    (''steps_completed'', PInt 0),
    (''total_steps'', PInt 3),
    (''step_results'', PList [])]"
  by (simp add: engine_defs example_simps)

subsection \<open>C4\<close>

text \<open>
  \<^bold>\<open>C4.\<close> The trace of a run is made of one segment for each step of a prefix of the
  list. The segment of a step starts with the dispatch of the step and holds at most one
  consultation of the recovery advisor and at most two entries into the dispatcher:
  after the consultation comes nothing, or a sleep of 2 seconds and one more dispatch of
  the same step, or one dispatch of the step with another target, and then only events of
  the browser. So no step of a run has the advisor consulted twice. When the first step
  fails and the advisor recommends an immediate retry, the run goes on with exactly: the
  consultation, a sleep of 2 seconds, one dispatch of the same step and its browser events;
  what follows belongs to the later steps, whether the retry succeeds or not.
\<close>

theorem recovery_runs_at_most_once_per_step:
  "(\<exists>segs.
      snd (snd (execute_workflow env workflow_steps context s)) = snd s @ concat segs \<and>
      length segs \<le> length workflow_steps \<and>
      list_all2 step_segment (take (length segs) workflow_steps) segs \<and>
      list_all (\<lambda>seg. advisor_calls seg \<le> 1 \<and> dispatches seg \<le> 2) segs) \<and>
   (workflow_steps = step # rest \<and>
    execute_workflow_step env step (case context of None \<Rightarrow> [] | Some c \<Rightarrow> c) s =
      (step_result, (w, tr)) \<and>
    \<not> succeeded step_result \<and>
    map_of step ''step_number'' = Some n \<and>
    ai_generate_error_recovery_strategy env (error_of step_result) (step_context env step n) w =
      (Inr strategy, w1) \<and>
    advised strategy = PStr ''immediate_retry''
    \<longrightarrow>
    (\<exists>d1 d2 segs.
       snd (snd (execute_workflow env workflow_steps context s)) =
         snd s @ Dispatch step # d1 @
         [RecoveryAdvice (error_of step_result) (step_context env step n), Sleep 2,
          Dispatch step] @ d2 @ concat segs \<and>
       list_all plain d1 \<and> list_all plain d2 \<and>
       length segs \<le> length rest \<and>
       list_all2 step_segment (take (length segs) rest) segs \<and>
       list_all (\<lambda>seg. advisor_calls seg \<le> 1 \<and> dispatches seg \<le> 2) segs))"
proof (intro conjI impI)
  let ?c = "case context of None \<Rightarrow> [] | Some c \<Rightarrow> c"
  from workflow_loop_segments[of env workflow_steps "[]" ?c s] obtain segs where
    segs: "snd (snd (workflow_loop env workflow_steps [] ?c s)) = snd s @ concat segs"
      "length segs \<le> length workflow_steps"
      "list_all2 step_segment (take (length segs) workflow_steps) segs" by blast
  from segments_counts[OF segs(3)]
  have "list_all (\<lambda>seg. advisor_calls seg \<le> 1 \<and> dispatches seg \<le> 2) segs" .
  with segs show "\<exists>segs.
      snd (snd (execute_workflow env workflow_steps context s)) = snd s @ concat segs \<and>
      length segs \<le> length workflow_steps \<and>
      list_all2 step_segment (take (length segs) workflow_steps) segs \<and>
      list_all (\<lambda>seg. advisor_calls seg \<le> 1 \<and> dispatches seg \<le> 2) segs"
    by (auto simp: execute_workflow_state)
next
  let ?c = "case context of None \<Rightarrow> [] | Some c \<Rightarrow> c"
  let ?e = "error_of step_result"
  let ?a = "step_context env step n"
  assume h: "workflow_steps = step # rest \<and>
    execute_workflow_step env step ?c s = (step_result, (w, tr)) \<and>
    \<not> succeeded step_result \<and>
    map_of step ''step_number'' = Some n \<and>
    ai_generate_error_recovery_strategy env ?e ?a w = (Inr strategy, w1) \<and>
    advised strategy = PStr ''immediate_retry''"
  then have steps: "workflow_steps = step # rest"
    and exec: "execute_workflow_step env step ?c s = (step_result, (w, tr))"
    and failed: "\<not> succeeded step_result"
    and sn: "map_of step ''step_number'' = Some n"
    and adv: "ai_generate_error_recovery_strategy env ?e ?a w = (Inr strategy, w1)"
    and retry: "advised strategy = PStr ''immediate_retry''"
    by simp_all
  from execute_workflow_step_trace[of env step ?c s] exec obtain d1 where
    d1: "tr = snd s @ Dispatch step # d1" "list_all plain d1" by auto
  let ?s2 = "(do_sleep env 2 w1, tr @ [RecoveryAdvice ?e ?a, Sleep 2])"
  obtain r2 s3 where again: "execute_workflow_step env step ?c ?s2 = (r2, s3)"
    by (cases "execute_workflow_step env step ?c ?s2")
  from execute_workflow_step_trace[of env step ?c ?s2] again obtain d2 where
    d2: "snd s3 = (tr @ [RecoveryAdvice ?e ?a, Sleep 2]) @ Dispatch step # d2"
        "list_all plain d2" by auto
  from sn adv retry again
  have "handle_step_failure env step step_result ?c (w, tr) = ((r2, step), s3)"
    by (simp add: handle_step_failure_def io_apply dict_index_def Let_def advised_def)
  from workflow_iteration_failed[OF exec failed this, of "[]"]
  have it: "workflow_iteration env step [] ?c s =
      ((Inr (\<not> succeeded r2, [if succeeded r2 then r2 else step_result], ?c), step), s3)"
    by simp
  let ?rs = "[if succeeded r2 then r2 else step_result]"
  have "\<exists>segs. snd (snd (workflow_loop env (step # rest) [] ?c s)) = snd s3 @ concat segs \<and>
      length segs \<le> length rest \<and> list_all2 step_segment (take (length segs) rest) segs"
  proof (cases "succeeded r2")
    case True
    from workflow_loop_segments[of env rest ?rs ?c s3] obtain segs where
      "snd (snd (workflow_loop env rest ?rs ?c s3)) = snd s3 @ concat segs"
      "length segs \<le> length rest"
      "list_all2 step_segment (take (length segs) rest) segs" by blast
    with it True show ?thesis
      by (intro exI[of _ segs]) (auto split: prod.splits)
  next
    case False
    with it show ?thesis
      by (intro exI[of _ "[]"]) simp
  qed
  then obtain segs where
    segs: "snd (snd (workflow_loop env (step # rest) [] ?c s)) = snd s3 @ concat segs"
      "length segs \<le> length rest"
      "list_all2 step_segment (take (length segs) rest) segs" by blast
  from segments_counts[OF segs(3)]
  have "list_all (\<lambda>seg. advisor_calls seg \<le> 1 \<and> dispatches seg \<le> 2) segs" .
  with segs d1 d2 steps show "\<exists>d1 d2 segs.
       snd (snd (execute_workflow env workflow_steps context s)) =
         snd s @ Dispatch step # d1 @ [RecoveryAdvice ?e ?a, Sleep 2, Dispatch step] @ d2 @
         concat segs \<and>
       list_all plain d1 \<and> list_all plain d2 \<and>
       length segs \<le> length rest \<and>
       list_all2 step_segment (take (length segs) rest) segs \<and>
       list_all (\<lambda>seg. advisor_calls seg \<le> 1 \<and> dispatches seg \<le> 2) segs"
    by (intro exI[of _ d1] exI[of _ d2] exI[of _ segs]) (simp add: execute_workflow_state)
qed

text \<open>
  The theorem at a run of one fill step on a locator that the browser keeps refusing, with
  an advisor that recommends an immediate retry: the retry fails as well, and the advisor
  is not asked again.
\<close>

theorem recovery_runs_at_most_once_per_step_witness:
  "execute_workflow_step (example_env [PStr ''#a''] ''immediate_retry'')
     (mk_step 1 ''fill'' ''#a'' []) [] (0, []) =
     ([(''success'', PBool False), (''error'', PStr ''no such element''),
       (''duration'', PFloat 1)],
      (2, [Dispatch (mk_step 1 ''fill'' ''#a'' []), Clear (PStr ''#a'')])) \<and>
   \<not> succeeded [(''success'', PBool False), (''error'', PStr ''no such element''),
                 (''duration'', PFloat 1)] \<and>
   map_of (mk_step 1 ''fill'' ''#a'' []) ''step_number'' = Some (PInt 1) \<and>
   ai_generate_error_recovery_strategy (example_env [PStr ''#a''] ''immediate_retry'')
     (PStr ''no such element'') ''Step 1: '' 2 =
     (Inr [(''recommended_action'', PStr ''immediate_retry'')], 2) \<and>
   advised [(''recommended_action'', PStr ''immediate_retry'')] = PStr ''immediate_retry'' \<and>
   (\<exists>segs.
      snd (snd (execute_workflow (example_env [PStr ''#a''] ''immediate_retry'')
                  [mk_step 1 ''fill'' ''#a'' []] None (0, []))) = concat segs \<and>
      length segs \<le> 1 \<and>
      list_all2 step_segment (take (length segs) [mk_step 1 ''fill'' ''#a'' []]) segs \<and>
      list_all (\<lambda>seg. advisor_calls seg \<le> 1 \<and> dispatches seg \<le> 2) segs) \<and>
   (\<exists>d1 d2.
      snd (snd (execute_workflow (example_env [PStr ''#a''] ''immediate_retry'')
                  [mk_step 1 ''fill'' ''#a'' []] None (0, []))) =
        Dispatch (mk_step 1 ''fill'' ''#a'' []) # d1 @
        [RecoveryAdvice (PStr ''no such element'') ''Step 1: '', Sleep 2,
         Dispatch (mk_step 1 ''fill'' ''#a'' [])] @ d2 \<and>
      list_all plain d1 \<and> list_all plain d2)"
proof -
  let ?env = "example_env [PStr ''#a''] ''immediate_retry''"
  let ?step = "mk_step 1 ''fill'' ''#a'' []"
  let ?r1 = "[(''success'', PBool False), (''error'', PStr ''no such element''),
              (''duration'', PFloat 1)]"
  let ?strategy = "[(''recommended_action'', PStr ''immediate_retry'')]"
  have h1: "execute_workflow_step ?env ?step [] (0, []) =
      (?r1, (2, [Dispatch ?step, Clear (PStr ''#a'')]))"
    by (simp add: engine_defs example_simps time_simps)
  have h2: "\<not> succeeded ?r1"
    by (simp add: succeeded_def dict_get_def)
  have h3: "map_of ?step ''step_number'' = Some (PInt 1)"
    by (simp add: mk_step_def)
  have e: "error_of ?r1 = PStr ''no such element''"
    by (simp add: dict_get_def)
  have c: "step_context ?env ?step (PInt 1) = ''Step 1: ''"
    by (simp add: example_env_sel mk_step_def dict_get_def digits_of.simps digit_def)
  have h4: "ai_generate_error_recovery_strategy ?env (PStr ''no such element'') ''Step 1: '' 2 =
      (Inr ?strategy, 2)"
    by (simp add: example_env_sel)
  have h5: "advised ?strategy = PStr ''immediate_retry''"
    by (simp add: advised_def dict_get_def)
  from recovery_runs_at_most_once_per_step[of ?env "[?step]" None "(0, [])" ?step "[]" ?r1 2
      "[Dispatch ?step, Clear (PStr ''#a'')]" "PInt 1" ?strategy 2]
  show ?thesis
    unfolding e c using h1 h2 h3 h4 h5 by simp
qed

subsection \<open>C5\<close>

text \<open>
  \<^bold>\<open>C5 (the code at the failing input).\<close> A fill step on \<^verbatim>\<open>#a\<close> with fallbacks
  \<^verbatim>\<open>#b\<close>, \<^verbatim>\<open>#c\<close> has failed; the browser would accept \<^verbatim>\<open>#c\<close> only, and the
  advisor recommends the alternative approach. Recovery dispatches the step on \<^verbatim>\<open>#b\<close>,
  returns that failure and never tries \<^verbatim>\<open>#c\<close>. It leaves the step with the target
  \<^verbatim>\<open>#b\<close>.
\<close>

theorem alternative_approach_stops_at_first_fallback:
  "handle_step_failure (example_env [PStr ''#a'', PStr ''#b''] ''alternative_approach'')
     (mk_step 1 ''fill'' ''#a'' [(''fallback_selectors'', PList [PStr ''#b'', PStr ''#c''])])
     (failure ''no such element'') [] (0, []) =
   (([(''success'', PBool False), (''error'', PStr ''no such element''),
      (''duration'', PFloat 1)],
     mk_step 1 ''fill'' ''#b'' [(''fallback_selectors'', PList [PStr ''#b'', PStr ''#c''])]),
    (2, [RecoveryAdvice (PStr ''no such element'') ''Step 1: '',
         Dispatch (mk_step 1 ''fill'' ''#b''
                     [(''fallback_selectors'', PList [PStr ''#b'', PStr ''#c''])]),
         Clear (PStr ''#b'')]))"
  by (simp add: engine_defs example_simps total_seconds_def to_micros_def example_time_def
     digits_of.simps digit_def)

subsection \<open>C6\<close>

text \<open>
  \<^bold>\<open>C6 (as amended).\<close> When the dispatch of a step fails and recovery runs, the runner
  keeps the coordinator's result as the step's final result only if it is a success; if it
  is a failure, the step's own failed result stays last in the result list and the loop
  stops. In both cases the final result has no \<^verbatim>\<open>recovery_attempted\<close> entry.
\<close>

theorem recovered_result_replaces_failed_one:
  assumes "execute_workflow_step env step ctx s = (step_result, s1)"
      and "\<not> succeeded step_result"
      and "handle_step_failure env step step_result ctx s1 = ((recovery, step'), s2)"
  shows "workflow_iteration env step results ctx s =
           ((Inr (\<not> succeeded recovery,
                  results @ [if succeeded recovery then recovery else step_result], ctx),
             step'), s2) \<and>
         map_of (if succeeded recovery then recovery else step_result) ''recovery_attempted''
           = None"
proof -
  from alwaysD[OF execute_workflow_step_result, of env step ctx s] assms(1)
  have "dispatch_result step_result" by simp
  moreover from handle_step_failure_result[of env step step_result ctx s1] assms(3)
  have "recovery_result recovery" by simp
  ultimately have "map_of (if succeeded recovery then recovery else step_result)
      ''recovery_attempted'' = None"
    by (auto dest: dispatch_result_no_stamp recovery_result_succeeded)
  with workflow_iteration_failed[OF assms] show ?thesis by blast
qed

text \<open>
  The theorem at a fill step on \<^verbatim>\<open>#a\<close>, which the browser refuses, with the
  fallback \<^verbatim>\<open>#b\<close>, which it accepts, and an advisor that recommends the alternative
  approach.
\<close>

theorem recovered_result_replaces_failed_one_witness:
  "execute_workflow_step (example_env [PStr ''#a''] ''alternative_approach'') (fill_step ''#a'') []
     (0, []) =
     ([(''success'', PBool False), (''error'', PStr ''no such element''),
       (''duration'', PFloat 1)],
      (2, [Dispatch (fill_step ''#a''), Clear (PStr ''#a'')])) \<and>
   \<not> succeeded [(''success'', PBool False), (''error'', PStr ''no such element''),
                 (''duration'', PFloat 1)] \<and>
   handle_step_failure (example_env [PStr ''#a''] ''alternative_approach'') (fill_step ''#a'')
     [(''success'', PBool False), (''error'', PStr ''no such element''), (''duration'', PFloat 1)]
     [] (2, [Dispatch (fill_step ''#a''), Clear (PStr ''#a'')]) =
     (([(''success'', PBool True),
        (''data'', PDict [(''selector'', PStr ''#b''), (''value'', PStr [])]),
        (''screenshot'', PStr (shot 5)),
        (''duration'', PFloat 2)], fill_step ''#b''),
      (6, [Dispatch (fill_step ''#a''), Clear (PStr ''#a''),
           RecoveryAdvice (PStr ''no such element'') ''Step 1: '',
           Dispatch (fill_step ''#b''), Clear (PStr ''#b''),
           TypeText (PStr ''#b'') (PStr []), Screenshot (shot 3), Screenshot (shot 5)])) \<and>
   workflow_iteration (example_env [PStr ''#a''] ''alternative_approach'') (fill_step ''#a'') []
     [] (0, []) =
     ((Inr (False,
            [[(''success'', PBool True),
              (''data'', PDict [(''selector'', PStr ''#b''), (''value'', PStr [])]),
              (''screenshot'', PStr (shot 5)),
              (''duration'', PFloat 2)]],
            []), fill_step ''#b''),
      (6, [Dispatch (fill_step ''#a''), Clear (PStr ''#a''),
           RecoveryAdvice (PStr ''no such element'') ''Step 1: '',
           Dispatch (fill_step ''#b''), Clear (PStr ''#b''),
           TypeText (PStr ''#b'') (PStr []), Screenshot (shot 3), Screenshot (shot 5)])) \<and>
   map_of [(''success'', PBool True),
           (''data'', PDict [(''selector'', PStr ''#b''), (''value'', PStr [])]),
           (''screenshot'', PStr (shot 5)),
           (''duration'', PFloat 2)] ''recovery_attempted'' = None"
proof -
  have h1: "execute_workflow_step (example_env [PStr ''#a''] ''alternative_approach'')
      (fill_step ''#a'') [] (0, []) =
     ([(''success'', PBool False), (''error'', PStr ''no such element''),
       (''duration'', PFloat 1)],
      (2, [Dispatch (fill_step ''#a''), Clear (PStr ''#a'')]))"
    by (simp add: engine_defs example_simps time_simps fill_step_def)
  have h2: "\<not> succeeded [(''success'', PBool False), (''error'', PStr ''no such element''),
                 (''duration'', PFloat 1)]"
    by (simp add: succeeded_def dict_get_def)
  have h3: "handle_step_failure (example_env [PStr ''#a''] ''alternative_approach'')
     (fill_step ''#a'')
     [(''success'', PBool False), (''error'', PStr ''no such element''), (''duration'', PFloat 1)]
     [] (2, [Dispatch (fill_step ''#a''), Clear (PStr ''#a'')]) =
     (([(''success'', PBool True),
        (''data'', PDict [(''selector'', PStr ''#b''), (''value'', PStr [])]),
        (''screenshot'', PStr (shot 5)),
        (''duration'', PFloat 2)], fill_step ''#b''),
      (6, [Dispatch (fill_step ''#a''), Clear (PStr ''#a''),
           RecoveryAdvice (PStr ''no such element'') ''Step 1: '',
           Dispatch (fill_step ''#b''), Clear (PStr ''#b''),
           TypeText (PStr ''#b'') (PStr []), Screenshot (shot 3), Screenshot (shot 5)]))"
    by (simp add: engine_defs example_simps time_simps fill_step_def)
  from recovered_result_replaces_failed_one[OF h1 h2 h3, of "[]"] h1 h2 h3
  show ?thesis
    by (simp add: succeeded_def dict_get_def)
qed

text \<open>
  \<^bold>\<open>C6 (counterexample).\<close> The fill step on \<^verbatim>\<open>#a\<close> fails, the advisor is consulted and
  the re-dispatch on the fallback \<^verbatim>\<open>#b\<close> succeeds. The step's final result in the
  report is the re-dispatch's result, which has no \<^verbatim>\<open>recovery_attempted\<close> entry.
\<close>

theorem recovered_step_result_lacks_recovery_stamp:
  "advisor_calls (snd (snd (execute_workflow (example_env [PStr ''#a''] ''alternative_approach'')
      [fill_step ''#a''] None (0, [])))) = 1 \<and>
   step_results_of (fst (fst (execute_workflow
      (example_env [PStr ''#a''] ''alternative_approach'') [fill_step ''#a''] None (0, [])))) =
     [[(''success'', PBool True),
       (''data'', PDict [(''selector'', PStr ''#b''), (''value'', PStr [])]),
       (''screenshot'', PStr (shot 5)),
       (''duration'', PFloat 2)]] \<and>
   dict_get [(''success'', PBool True),
             (''data'', PDict [(''selector'', PStr ''#b''), (''value'', PStr [])]),
             (''screenshot'', PStr (shot 5)),
             (''duration'', PFloat 2)] ''recovery_attempted'' PNone \<noteq> PBool True"
  by (simp add: engine_defs example_simps time_simps fill_step_def advisor_calls_def
      step_results_of_def)

subsection \<open>C7\<close>

text \<open>
  \<^bold>\<open>C7 (as amended).\<close> Take a call of \<^verbatim>\<open>_click_element\<close> whose
  \<^verbatim>\<open>fallback_selectors\<close> is a list (or absent) and whose \<^verbatim>\<open>wait_time\<close> is absent
  or a number that the wait after a click accepts (it can be compared with 0 and, if
  positive, divided by 1000). The candidates \<^verbatim>\<open>[selector] + fallbacks\<close> are clicked
  in listed order, each position of the list at most once. Either the clicks on the first
  \<open>k\<close> candidates raise and the click on the next one returns: then this candidate ends the
  search, the candidates after it are not clicked, the engine waits, takes a screenshot and
  returns a success that records this candidate. Or the click on every candidate raises:
  then each candidate has been clicked exactly once, in order, before the AI-assisted search
  starts with its screenshot and its question to the vision advisor.
\<close>

theorem click_candidates_tried_in_order:
  assumes "dict_get pd ''fallback_selectors'' (PList []) = PList fallbacks"
      and "py_gt_zero (dict_get pd ''wait_time'' (PInt 1000)) = Inr positive"
      and "positive \<longrightarrow> py_div_1000 (dict_get pd ''wait_time'' (PInt 1000)) = Inr seconds"
      and "click_element env selector (PDict pd) s = (r, s')"
  shows "(\<exists>k p p'. k < length (selector # fallbacks) \<and>
            snd s' = snd s @ map (\<lambda>c. Click c False) (take k (selector # fallbacks)) @
                     Click ((selector # fallbacks) ! k) True #
                     (if positive then [Sleep seconds] else []) @ [Screenshot p'] \<and>
            r = [(''success'', PBool True),
                 (''data'', PDict [(''selector'', (selector # fallbacks) ! k),
                                   (''action'', PStr ''clicked'')]),
                 (''screenshot'', PStr p)]) \<or>
         (\<exists>p p' later.
            snd s' = snd s @ map (\<lambda>c. Click c False) (selector # fallbacks) @
                     Screenshot p #
                     AnalyzeScreenshot p' (''Find and click element: '' @ py_str env selector) #
                     later)"
proof -
  let ?cands = "selector # fallbacks"
  from click_loop_cases[OF assms(2,3), of env ?cands s] show ?thesis
  proof
    assume "\<exists>s1. for_each (click_try_selector env (PDict pd)) ?cands s = (Inr None, s1) \<and>
               snd s1 = snd s @ map (\<lambda>c. Click c False) ?cands"
    then obtain s1 where none: "for_each (click_try_selector env (PDict pd)) ?cands s =
        (Inr None, s1)" and tr: "snd s1 = snd s @ map (\<lambda>c. Click c False) ?cands" by blast
    from ai_assisted_click_trace[of env selector "PDict pd" s1] obtain p p' later where
      ai: "snd (snd (ai_assisted_click env selector (PDict pd) s1)) =
         snd s1 @ Screenshot p #
           AnalyzeScreenshot p' (''Find and click element: '' @ py_str env selector) # later"
      by blast
    from none assms(1,4) have "s' = snd (ai_assisted_click env selector (PDict pd) s1)"
      by (auto simp: click_element_def io_apply split: prod.splits)
    with ai tr show ?thesis
      by (intro disjI2 exI[of _ p] exI[of _ p'] exI[of _ later]) simp
  next
    assume "\<exists>k p p' s1. k < length ?cands \<and>
            for_each (click_try_selector env (PDict pd)) ?cands s =
              (Inr (Some [(''success'', PBool True),
                          (''data'', PDict [(''selector'', ?cands ! k),
                                            (''action'', PStr ''clicked'')]),
                          (''screenshot'', PStr p)]), s1) \<and>
            snd s1 = snd s @ map (\<lambda>c. Click c False) (take k ?cands) @
                     Click (?cands ! k) True # (if positive then [Sleep seconds] else []) @
                     [Screenshot p']"
    then obtain k p p' s1 where k: "k < length ?cands"
      "for_each (click_try_selector env (PDict pd)) ?cands s =
              (Inr (Some [(''success'', PBool True),
                          (''data'', PDict [(''selector'', ?cands ! k),
                                            (''action'', PStr ''clicked'')]),
                          (''screenshot'', PStr p)]), s1)"
      "snd s1 = snd s @ map (\<lambda>c. Click c False) (take k ?cands) @
                     Click (?cands ! k) True # (if positive then [Sleep seconds] else []) @
                     [Screenshot p']" by blast
    from k(2) assms(1,4) have "s' = s1" and
      "r = [(''success'', PBool True),
            (''data'', PDict [(''selector'', ?cands ! k), (''action'', PStr ''clicked'')]),
            (''screenshot'', PStr p)]"
      by (auto simp: click_element_def io_apply)
    with k(1,3) show ?thesis
      by (intro disjI1 exI[of _ k] exI[of _ p] exI[of _ p']) simp
  qed
qed

text \<open>
  The theorem at the candidates \<^verbatim>\<open>#a\<close>, \<^verbatim>\<open>#b\<close> where the click on
  \<^verbatim>\<open>#a\<close> raises and the click on \<^verbatim>\<open>#b\<close> returns: exactly two clicks, and the
  result records \<^verbatim>\<open>#b\<close>.
\<close>

theorem click_candidates_tried_in_order_witness:
  "dict_get [(''fallback_selectors'', PList [PStr ''#b''])] ''fallback_selectors'' (PList [])
     = PList [PStr ''#b''] \<and>
   py_gt_zero (dict_get [(''fallback_selectors'', PList [PStr ''#b''])] ''wait_time''
     (PInt 1000)) = Inr True \<and>
   py_div_1000 (dict_get [(''fallback_selectors'', PList [PStr ''#b''])] ''wait_time''
     (PInt 1000)) = Inr 1 \<and>
   click_element (example_env [PStr ''#a''] ''manual_intervention'') (PStr ''#a'')
     (PDict [(''fallback_selectors'', PList [PStr ''#b''])]) (0, []) =
     ([(''success'', PBool True),
       (''data'', PDict [(''selector'', PStr ''#b''), (''action'', PStr ''clicked'')]),
       (''screenshot'', PStr (shot 0))],
      (1, [Click (PStr ''#a'') False, Click (PStr ''#b'') True, Sleep 1,
           Screenshot (shot 0)])) \<and>
   ((\<exists>k p p'. k < length [PStr ''#a'', PStr ''#b''] \<and>
        [Click (PStr ''#a'') False, Click (PStr ''#b'') True, Sleep 1, Screenshot (shot 0)] =
          map (\<lambda>c. Click c False) (take k [PStr ''#a'', PStr ''#b'']) @
          Click ([PStr ''#a'', PStr ''#b''] ! k) True # [Sleep 1] @ [Screenshot p'] \<and>
        [(''success'', PBool True),
         (''data'', PDict [(''selector'', PStr ''#b''), (''action'', PStr ''clicked'')]),
         (''screenshot'', PStr (shot 0))] =
        [(''success'', PBool True),
         (''data'', PDict [(''selector'', [PStr ''#a'', PStr ''#b''] ! k),
                           (''action'', PStr ''clicked'')]),
         (''screenshot'', PStr p)]) \<or>
    (\<exists>p p' later.
        [Click (PStr ''#a'') False, Click (PStr ''#b'') True, Sleep 1, Screenshot (shot 0)] =
          map (\<lambda>c. Click c False) [PStr ''#a'', PStr ''#b''] @
          Screenshot p # AnalyzeScreenshot p' ''Find and click element: #a'' # later))"
proof -
  have h1: "dict_get [(''fallback_selectors'', PList [PStr ''#b''])] ''fallback_selectors''
      (PList []) = PList [PStr ''#b'']"
    by (simp add: dict_get_def)
  have h2: "py_gt_zero (dict_get [(''fallback_selectors'', PList [PStr ''#b''])] ''wait_time''
     (PInt 1000)) = Inr True"
    by (simp add: dict_get_def)
  have h3: "py_div_1000 (dict_get [(''fallback_selectors'', PList [PStr ''#b''])] ''wait_time''
     (PInt 1000)) = Inr 1"
    by (simp add: dict_get_def)
  have h4: "click_element (example_env [PStr ''#a''] ''manual_intervention'') (PStr ''#a'')
     (PDict [(''fallback_selectors'', PList [PStr ''#b''])]) (0, []) =
     ([(''success'', PBool True),
       (''data'', PDict [(''selector'', PStr ''#b''), (''action'', PStr ''clicked'')]),
       (''screenshot'', PStr (shot 0))],
      (1, [Click (PStr ''#a'') False, Click (PStr ''#b'') True, Sleep 1,
           Screenshot (shot 0)]))"
    by (simp add: engine_defs example_simps)
  have s: "py_str (example_env [PStr ''#a''] ''manual_intervention'') (PStr ''#a'') = ''#a''"
    by (simp add: example_env_sel)
  from h3 have h3': "True \<longrightarrow> py_div_1000 (dict_get [(''fallback_selectors'',
      PList [PStr ''#b''])] ''wait_time'' (PInt 1000)) = Inr 1" by simp
  from click_candidates_tried_in_order[OF h1 h2 h3' h4] h1 h2 h3 h4
  show ?thesis unfolding s by simp
qed

text \<open>
  \<^bold>\<open>C7 (counterexample).\<close> With the primary locator \<^verbatim>\<open>#a\<close> listed again among the
  fallbacks and no element found, \<^verbatim>\<open>#a\<close> is clicked twice in the same resolution call.
\<close>

theorem repeated_locator_is_clicked_twice:
  "clicks (snd (snd (click_element (example_env [PStr ''#a''] ''manual_intervention'')
      (PStr ''#a'') (PDict [(''fallback_selectors'', PList [PStr ''#a''])]) (0, [])))) =
   [PStr ''#a'', PStr ''#a'']"
  by (simp add: engine_defs example_simps)

subsection \<open>C8\<close>

text \<open>
  \<^bold>\<open>C8 (as amended).\<close> For a step whose \<^verbatim>\<open>action_type\<close> is not a recognized one, the
  dispatcher calls nothing on the browser and returns \<^verbatim>\<open>success = False\<close> with the error
  \<^verbatim>\<open>Unknown action type: ...\<close>. The runner treats this failure like any other. A run
  that starts with such a step goes on as follows. If the step has no \<^verbatim>\<open>step_number\<close>,
  nothing more happens. Otherwise the recovery advisor is consulted about the error, and
  then: under the advice \<^verbatim>\<open>immediate_retry\<close> the engine sleeps 2 seconds and dispatches
  the step again; under the advice \<^verbatim>\<open>alternative_approach\<close> it dispatches the step again
  with the first fallback selector for target if the step has one, and does nothing if it
  has none; under any other advice, or if the advisor raises, it does nothing. That is the
  whole run: a second dispatch fails like the first, the failed result of the first
  dispatch is the only step result of the report, and no later step is dispatched.
\<close>

theorem unknown_action_fails_and_goes_to_recovery:
  assumes "dict_get step ''action_type'' PNone \<notin> set recognized_actions"
      and "execute_workflow_step env step (case context of None \<Rightarrow> [] | Some c \<Rightarrow> c) s =
             (r, (w, tr))"
  shows "(\<exists>t. r = unknown_action_result env step t) \<and>
         tr = snd s @ [Dispatch step] \<and>
         (map_of step ''step_number'' = None \<longrightarrow>
            snd (snd (execute_workflow env (step # rest) context s)) = tr) \<and>
         (\<forall>n answer w1.
            map_of step ''step_number'' = Some n \<and>
            ai_generate_error_recovery_strategy env (error_of r) (step_context env step n) w =
              (answer, w1) \<longrightarrow>
            snd (snd (execute_workflow env (step # rest) context s)) =
              tr @ RecoveryAdvice (error_of r) (step_context env step n) #
                   retry_events step answer) \<and>
         step_results_of (fst (fst (execute_workflow env (step # rest) context s))) = [r] \<and>
         dict_get (fst (fst (execute_workflow env (step # rest) context s)))
           ''workflow_success'' PNone = PBool False"
proof -
  let ?c = "case context of None \<Rightarrow> [] | Some c \<Rightarrow> c"
  obtain w0 tr0 where s: "s = (w0, tr0)" by (cases s)
  from unknown_dispatch[OF assms(1), of env ?c w0 tr0] assms(2) obtain t where
    r: "r = unknown_action_result env step t" and tr: "tr = snd s @ [Dispatch step]"
    by (auto simp: s)
  from r have failed: "\<not> succeeded r"
    by (simp add: unknown_action_result_def succeeded_def dict_get_def)
  obtain r2 step' s2 where rec: "handle_step_failure env step r ?c (w, tr) = ((r2, step'), s2)"
    by (cases "handle_step_failure env step r ?c (w, tr)") auto
  have after: "\<not> succeeded r2 \<and>
      (map_of step ''step_number'' = None \<longrightarrow> snd s2 = tr) \<and>
      (\<forall>n answer w1.
         map_of step ''step_number'' = Some n \<and>
         ai_generate_error_recovery_strategy env (error_of r) (step_context env step n) w =
           (answer, w1) \<longrightarrow>
         snd s2 = tr @ RecoveryAdvice (error_of r) (step_context env step n) #
                  retry_events step answer)"
  proof (cases rule: handle_step_failure_cases[where step = step and env = env and sr = r
        and w = w and ctx = ?c and tr = tr])
    case (no_number e)
    with rec show ?thesis by (auto simp: succeeded_def failure_def dict_get_def)
  next
    case (advisor_raised n e w1)
    with rec show ?thesis
      by (auto simp: succeeded_def failure_def dict_get_def retry_events_def)
  next
    case (retry n strategy w1)
    let ?s1 = "(do_sleep env 2 w1,
        tr @ [RecoveryAdvice (error_of r) (step_context env step n), Sleep 2])"
    from unknown_dispatch[OF assms(1), of env ?c "fst ?s1" "snd ?s1"] obtain t' w' where
      "execute_workflow_step env step ?c ?s1 =
         (unknown_action_result env step t', (w', snd ?s1 @ [Dispatch step]))" by auto
    with retry rec show ?thesis
      by (auto simp: unknown_action_result_def succeeded_def dict_get_def retry_events_def)
  next
    case (fallback n strategy w1 selector others)
    let ?s1 = "(w1, tr @ [RecoveryAdvice (error_of r) (step_context env step n)])"
    let ?step = "dict_set step ''target'' selector"
    have "dict_get ?step ''action_type'' PNone = dict_get step ''action_type'' PNone"
      by (rule dict_get_set_other) simp
    with assms(1) have "dict_get ?step ''action_type'' PNone \<notin> set recognized_actions" by simp
    from unknown_dispatch[OF this, of env ?c "fst ?s1" "snd ?s1"] obtain t' w' where
      "execute_workflow_step env ?step ?c ?s1 =
         (unknown_action_result env ?step t', (w', snd ?s1 @ [Dispatch ?step]))" by auto
    with fallback rec show ?thesis
      by (auto simp: unknown_action_result_def succeeded_def dict_get_def retry_events_def)
  next
    case (gave_up n strategy w1 x)
    with rec show ?thesis
      by (auto simp: succeeded_def failure_def recovery_failed_def dict_get_def)
  qed
  from workflow_iteration_failed[OF assms(2) failed rec, of "[]"] after
  have it: "workflow_iteration env step [] ?c s = ((Inr (True, [r], ?c), step'), s2)"
    by simp
  then have loop: "workflow_loop env (step # rest) [] ?c s =
      ((Inr ([r], ?c), step' # rest), s2)"
    by simp
  have counts: "count_successes [r] = Inr 0" "collect_screenshots [r] = Inr []"
    by (simp_all add: r unknown_action_result_def dict_index_def)
  from loop counts
  have run: "execute_workflow env (step # rest) context s =
      (([(''workflow_success'', PBool False),
         (''steps_completed'', PInt 0),
         (''total_steps'', PInt 1),
         (''step_results'', PList [PDict r]),
         (''context'', PDict ?c),
         (''screenshots'', PList [])], step' # rest), s2)"
    by (simp add: execute_workflow_unfold)
  from run after r tr show ?thesis
    by (simp add: step_results_of_def dict_get_def) blast
qed

text \<open>The theorem at a run of one step of the unknown type \<^verbatim>\<open>hover\<close>, with an advisor
  that recommends an immediate retry.\<close>

theorem unknown_action_fails_and_goes_to_recovery_witness:
  "dict_get (mk_step 1 ''hover'' ''#a'' []) ''action_type'' PNone \<notin> set recognized_actions \<and>
   execute_workflow_step (example_env [] ''immediate_retry'')
     (mk_step 1 ''hover'' ''#a'' []) [] (0, []) =
     (unknown_action_result (example_env [] ''immediate_retry'')
        (mk_step 1 ''hover'' ''#a'' []) 1,
      (2, [Dispatch (mk_step 1 ''hover'' ''#a'' [])])) \<and>
   map_of (mk_step 1 ''hover'' ''#a'' []) ''step_number'' = Some (PInt 1) \<and>
   ai_generate_error_recovery_strategy (example_env [] ''immediate_retry'')
     (PStr ''Unknown action type: hover'') ''Step 1: '' 2 =
     (Inr [(''recommended_action'', PStr ''immediate_retry'')], 2) \<and>
   snd (snd (execute_workflow (example_env [] ''immediate_retry'')
               [mk_step 1 ''hover'' ''#a'' []] None (0, []))) =
     [Dispatch (mk_step 1 ''hover'' ''#a'' []),
      RecoveryAdvice (PStr ''Unknown action type: hover'') ''Step 1: '',
      Sleep 2,
      Dispatch (mk_step 1 ''hover'' ''#a'' [])] \<and>
   step_results_of (fst (fst (execute_workflow (example_env [] ''immediate_retry'')
               [mk_step 1 ''hover'' ''#a'' []] None (0, [])))) =
     [unknown_action_result (example_env [] ''immediate_retry'')
        (mk_step 1 ''hover'' ''#a'' []) 1] \<and>
   dict_get (fst (fst (execute_workflow (example_env [] ''immediate_retry'')
               [mk_step 1 ''hover'' ''#a'' []] None (0, [])))) ''workflow_success'' PNone =
     PBool False"
proof -
  let ?env = "example_env [] ''immediate_retry''"
  let ?step = "mk_step 1 ''hover'' ''#a'' []"
  let ?r = "unknown_action_result ?env ?step 1"
  let ?strategy = "[(''recommended_action'', PStr ''immediate_retry'')]"
  have a: "dict_get ?step ''action_type'' PNone = PStr ''hover''"
    by (simp add: mk_step_def dict_get_def)
  have h1: "dict_get ?step ''action_type'' PNone \<notin> set recognized_actions"
    unfolding a by (simp add: recognized_actions_def)
  have h2: "execute_workflow_step ?env ?step [] (0, []) = (?r, (2, [Dispatch ?step]))"
    by (simp add: engine_defs example_simps time_simps unknown_action_result_def)
  have h3: "map_of ?step ''step_number'' = Some (PInt 1)"
    by (simp add: mk_step_def)
  have e: "error_of ?r = PStr ''Unknown action type: hover''"
    by (simp add: unknown_action_result_def dict_get_def mk_step_def example_env_sel)
  have c: "step_context ?env ?step (PInt 1) = ''Step 1: ''"
    by (simp add: example_env_sel mk_step_def dict_get_def digits_of.simps digit_def)
  have h4: "ai_generate_error_recovery_strategy ?env (PStr ''Unknown action type: hover'')
      ''Step 1: '' 2 = (Inr ?strategy, 2)"
    by (simp add: example_env_sel)
  have ev: "retry_events ?step (Inr ?strategy) = [Sleep 2, Dispatch ?step]"
    by (simp add: retry_events_def advised_def dict_get_def)
  from unknown_action_fails_and_goes_to_recovery[of ?step ?env None "(0, [])" ?r 2
      "[Dispatch ?step]" "[]"] h1 h2
  have all: "(\<forall>n answer w1.
      map_of ?step ''step_number'' = Some n \<and>
      ai_generate_error_recovery_strategy ?env (error_of ?r) (step_context ?env ?step n) 2 =
        (answer, w1) \<longrightarrow>
      snd (snd (execute_workflow ?env [?step] None (0, []))) =
        [Dispatch ?step] @ RecoveryAdvice (error_of ?r) (step_context ?env ?step n) #
          retry_events ?step answer)" and
    res: "step_results_of (fst (fst (execute_workflow ?env [?step] None (0, [])))) = [?r]" and
    ok: "dict_get (fst (fst (execute_workflow ?env [?step] None (0, []))))
           ''workflow_success'' PNone = PBool False"
    by simp_all
  have "snd (snd (execute_workflow ?env [?step] None (0, []))) =
      [Dispatch ?step] @ RecoveryAdvice (error_of ?r) (step_context ?env ?step (PInt 1)) #
        retry_events ?step (Inr ?strategy)"
    using all[rule_format, of "PInt 1" "Inr ?strategy" 2] h3 h4 unfolding e c by simp
  then have "snd (snd (execute_workflow ?env [?step] None (0, []))) =
      [Dispatch ?step, RecoveryAdvice (PStr ''Unknown action type: hover'') ''Step 1: '',
       Sleep 2, Dispatch ?step]"
    unfolding e c ev by simp
  with h1 h2 h3 h4 res ok show ?thesis by blast
qed

text \<open>
  \<^bold>\<open>C8 (counterexample).\<close> A step of the unknown type \<^verbatim>\<open>hover\<close> fails; the advisor is
  consulted and, on its advice of an immediate retry, the step is dispatched a second time.
\<close>

theorem unknown_action_is_retried:
  "snd (snd (execute_workflow (example_env [] ''immediate_retry'')
               [mk_step 1 ''hover'' ''#a'' []] None (0, []))) =
   [Dispatch (mk_step 1 ''hover'' ''#a'' []),
    RecoveryAdvice (PStr ''Unknown action type: hover'') ''Step 1: '',
    Sleep 2,
    Dispatch (mk_step 1 ''hover'' ''#a'' [])]"
  by (simp add: engine_defs example_simps time_simps)

subsection \<open>C9\<close>

text \<open>
  \<^bold>\<open>C9 (as amended).\<close> Take a browser and an advisor that do not depend on the wall clock
  nor on the name of the screenshot file (\<open>clock_blind\<close>: related worlds answer every call
  alike and stay related, whatever the clock reads). Then two runs that are given equal
  step lists and equal contexts, from related worlds, give reports that agree on everything
  but the clock's traces: the same \<^verbatim>\<open>workflow_success\<close>, \<^verbatim>\<open>steps_completed\<close>,
  \<^verbatim>\<open>total_steps\<close>, error and context, the same number of screenshots, and step results
  that differ at most in the value of \<^verbatim>\<open>duration\<close> and in the file name of a
  \<^verbatim>\<open>screenshot\<close>. Both runs leave the same step list behind. This list need not be the
  list that was submitted: recovery by a fallback selector writes the selector into the
  step, so the second run has to be given a copy of the list as it was before the first.
\<close>

theorem reports_agree_up_to_clock:
  fixes R :: "'w \<Rightarrow> 'w \<Rightarrow> bool"
  assumes "clock_blind env R" and "R w1 w2"
  shows "erase_report (fst (fst (execute_workflow env workflow_steps context (w1, tr1)))) =
         erase_report (fst (fst (execute_workflow env workflow_steps context (w2, tr2)))) \<and>
         snd (fst (execute_workflow env workflow_steps context (w1, tr1))) =
         snd (fst (execute_workflow env workflow_steps context (w2, tr2)))"
proof -
  let ?c0 = "case context of None \<Rightarrow> [] | Some c \<Rightarrow> c"
  obtain o1 a1 t1 where l1: "workflow_loop env workflow_steps [] ?c0 (w1, tr1) = ((o1, a1), t1)"
    by (cases "workflow_loop env workflow_steps [] ?c0 (w1, tr1)") auto
  obtain o2 a2 t2 where l2: "workflow_loop env workflow_steps [] ?c0 (w2, tr2) = ((o2, a2), t2)"
    by (cases "workflow_loop env workflow_steps [] ?c0 (w2, tr2)") auto
  from rel_loop[OF assms(1), of "[]" "[]" "(w1, tr1)" "(w2, tr2)" workflow_steps ?c0]
    assms(2) l1 l2
  have q: "rel_sum (=) (rel_prod (list_all2 sim_res) (=)) o1 o2" and a: "a1 = a2" by simp_all
  show ?thesis
  proof (cases o1)
    case (Inl e)
    with q a l1 l2 show ?thesis by (cases o2) (simp_all add: execute_workflow_unfold)
  next
    case (Inr v1)
    with q obtain v2 where v2: "o2 = Inr v2" "rel_prod (list_all2 sim_res) (=) v1 v2"
      by (cases o2) simp_all
    obtain rs1 c where v1: "v1 = (rs1, c)" by (cases v1)
    with v2(2) obtain rs2 where v2': "v2 = (rs2, c)" and sim: "list_all2 sim_res rs1 rs2"
      by (cases v2) auto
    from count_successes_sim[OF sim] have cnt: "count_successes rs1 = count_successes rs2" .
    from list_all2_lengthD[OF sim] have len: "length rs1 = length rs2" .
    from collect_screenshots_sim[OF sim]
    have shots: "rel_sum (=) (\<lambda>a b. length a = length b)
        (collect_screenshots rs1) (collect_screenshots rs2)" .
    from erase_step_results_sim[OF sim]
    have res: "map erase_value (map PDict rs1) = map erase_value (map PDict rs2)" .
    from shots res a show ?thesis
      unfolding execute_workflow_unfold l1 l2 Inr v2(1) v1 v2'
      by (cases "collect_screenshots rs1"; cases "collect_screenshots rs2";
          cases "count_successes rs2")
         (simp_all add: cnt len erase_report_def erase_report_entry_def)
  qed
qed

text \<open>
  The theorem at two runs of the same two steps, 100 seconds apart, against the scripted
  browser and advisor, which never look at the clock. Both runs leave the fill step with
  the target \<^verbatim>\<open>#b\<close>.
\<close>

theorem reports_agree_up_to_clock_witness:
  "clock_blind (example_env [PStr ''#a''] ''alternative_approach'') (\<lambda>w1 w2. True) \<and>
   erase_report (fst (fst (execute_workflow (example_env [PStr ''#a''] ''alternative_approach'')
      [mk_step 1 ''navigate'' ''https://x'' [], fill_step ''#a''] None (0, [])))) =
   erase_report (fst (fst (execute_workflow (example_env [PStr ''#a''] ''alternative_approach'')
      [mk_step 1 ''navigate'' ''https://x'' [], fill_step ''#a''] None (100, [])))) \<and>
   snd (fst (execute_workflow (example_env [PStr ''#a''] ''alternative_approach'')
      [mk_step 1 ''navigate'' ''https://x'' [], fill_step ''#a''] None (0, []))) =
   snd (fst (execute_workflow (example_env [PStr ''#a''] ''alternative_approach'')
      [mk_step 1 ''navigate'' ''https://x'' [], fill_step ''#a''] None (100, [])))"
proof (rule conjI)
  show "clock_blind (example_env [PStr ''#a''] ''alternative_approach'') (\<lambda>w1 w2. True)"
    by (rule example_env_clock_blind)
  show "erase_report (fst (fst (execute_workflow
      (example_env [PStr ''#a''] ''alternative_approach'')
      [mk_step 1 ''navigate'' ''https://x'' [], fill_step ''#a''] None (0, [])))) =
   erase_report (fst (fst (execute_workflow (example_env [PStr ''#a''] ''alternative_approach'')
      [mk_step 1 ''navigate'' ''https://x'' [], fill_step ''#a''] None (100, [])))) \<and>
   snd (fst (execute_workflow (example_env [PStr ''#a''] ''alternative_approach'')
      [mk_step 1 ''navigate'' ''https://x'' [], fill_step ''#a''] None (0, []))) =
   snd (fst (execute_workflow (example_env [PStr ''#a''] ''alternative_approach'')
      [mk_step 1 ''navigate'' ''https://x'' [], fill_step ''#a''] None (100, [])))"
    by (rule reports_agree_up_to_clock[OF example_env_clock_blind]) simp
qed

text \<open>
  \<^bold>\<open>C9 (counterexample).\<close> The same one-step list is run twice against the same browser
  and advisor, 100 seconds apart. The screenshot of the step is named after the time it is
  taken, so the two reports differ.
\<close>

theorem replay_at_another_time_differs:
  "fst (fst (execute_workflow (example_env [] ''manual_intervention'')
      [mk_step 1 ''navigate'' ''https://x'' []] None (0, []))) \<noteq>
   fst (fst (execute_workflow (example_env [] ''manual_intervention'')
      [mk_step 1 ''navigate'' ''https://x'' []] None (100, [])))"
proof -
  have a: "dict_get (fst (fst (execute_workflow (example_env [] ''manual_intervention'')
      [mk_step 1 ''navigate'' ''https://x'' []] None (0, [])))) ''screenshots'' PNone =
      PList [PStr ''screenshots/screenshot_20240101_000003.png'']"
    by (simp add: engine_defs example_simps time_simps shot_def strftime_def pad2_def pad4_def)
  have b: "dict_get (fst (fst (execute_workflow (example_env [] ''manual_intervention'')
      [mk_step 1 ''navigate'' ''https://x'' []] None (100, [])))) ''screenshots'' PNone =
      PList [PStr ''screenshots/screenshot_20240101_000143.png'']"
    by (simp add: engine_defs example_simps time_simps shot_def strftime_def pad2_def pad4_def)
  show ?thesis
  proof
    assume "fst (fst (execute_workflow (example_env [] ''manual_intervention'')
      [mk_step 1 ''navigate'' ''https://x'' []] None (0, []))) =
      fst (fst (execute_workflow (example_env [] ''manual_intervention'')
      [mk_step 1 ''navigate'' ''https://x'' []] None (100, [])))"
    with a b show False by simp
  qed
qed

subsection \<open>C10\<close>

text \<open>
  \<^bold>\<open>C10.\<close> A wait step whose \<^verbatim>\<open>parameters.type\<close> is present and is none of
  \<^verbatim>\<open>time\<close>, \<^verbatim>\<open>element\<close>, \<^verbatim>\<open>text\<close> succeeds at once: the dispatcher only takes
  its two screenshots (one in \<^verbatim>\<open>_wait_action\<close>, one on success), so there is no sleep
  and no browser wait call, whatever \<^verbatim>\<open>timeout\<close> is.
\<close>

theorem unknown_wait_type_succeeds_without_waiting:
  assumes "dict_get step ''action_type'' PNone = PStr ''wait''"
      and "dict_get step ''parameters'' (PDict []) = PDict parameters"
      and "map_of parameters ''type'' = Some wait_type"
      and "wait_type \<noteq> PStr ''time''"
      and "wait_type \<noteq> PStr ''element''"
      and "wait_type \<noteq> PStr ''text''"
  shows "\<exists>r s' p1 p2.
           execute_workflow_step env step ctx s = (r, s') \<and>
           dict_index r ''success'' = Inr (PBool True) \<and>
           dict_index r ''data'' =
             Inr (PDict [(''condition'', dict_get step ''target'' PNone),
                         (''wait_type'', wait_type)]) \<and>
           snd s' = snd s @ [Dispatch step, Screenshot p1, Screenshot p2]"
proof (cases s)
  case (Pair w tr)
  with assms show ?thesis
    by (auto simp: execute_workflow_step_def wait_action_def take_screenshot_def io_apply
        dict_get_def dict_index_def Let_def split: prod.splits sum.splits)
qed

text \<open>The theorem at a wait step of type \<^verbatim>\<open>visible\<close> with a timeout of 5000.\<close>

theorem unknown_wait_type_succeeds_without_waiting_witness:
  "dict_get (mk_step 1 ''wait'' ''#a'' [(''type'', PStr ''visible''), (''timeout'', PInt 5000)])
     ''action_type'' PNone = PStr ''wait'' \<and>
   dict_get (mk_step 1 ''wait'' ''#a'' [(''type'', PStr ''visible''), (''timeout'', PInt 5000)])
     ''parameters'' (PDict []) = PDict [(''type'', PStr ''visible''), (''timeout'', PInt 5000)] \<and>
   map_of [(''type'', PStr ''visible''), (''timeout'', PInt 5000)] ''type''
     = Some (PStr ''visible'') \<and>
   PStr ''visible'' \<noteq> PStr ''time'' \<and> PStr ''visible'' \<noteq> PStr ''element'' \<and>
   PStr ''visible'' \<noteq> PStr ''text'' \<and>
   (\<exists>r s' p1 p2.
      execute_workflow_step (example_env [] ''manual_intervention'')
        (mk_step 1 ''wait'' ''#a'' [(''type'', PStr ''visible''), (''timeout'', PInt 5000)])
        [] (0, []) = (r, s') \<and>
      dict_index r ''success'' = Inr (PBool True) \<and>
      dict_index r ''data'' =
        Inr (PDict [(''condition'', PStr ''#a''), (''wait_type'', PStr ''visible'')]) \<and>
      snd s' = [Dispatch (mk_step 1 ''wait'' ''#a''
                            [(''type'', PStr ''visible''), (''timeout'', PInt 5000)]),
                Screenshot p1, Screenshot p2])"
proof -
  have h1: "dict_get (mk_step 1 ''wait'' ''#a''
        [(''type'', PStr ''visible''), (''timeout'', PInt 5000)]) ''action_type'' PNone
      = PStr ''wait''"
    by (simp add: mk_step_def dict_get_def)
  have h2: "dict_get (mk_step 1 ''wait'' ''#a''
        [(''type'', PStr ''visible''), (''timeout'', PInt 5000)]) ''parameters'' (PDict [])
      = PDict [(''type'', PStr ''visible''), (''timeout'', PInt 5000)]"
    by (simp add: mk_step_def dict_get_def)
  have h3: "map_of [(''type'', PStr ''visible''), (''timeout'', PInt 5000)] ''type''
      = Some (PStr ''visible'')"
    by simp
  have h4: "PStr ''visible'' \<noteq> PStr ''time''" "PStr ''visible'' \<noteq> PStr ''element''"
    "PStr ''visible'' \<noteq> PStr ''text''"
    by simp_all
  have t: "dict_get (mk_step 1 ''wait'' ''#a''
        [(''type'', PStr ''visible''), (''timeout'', PInt 5000)]) ''target'' PNone = PStr ''#a''"
    by (simp add: mk_step_def dict_get_def)
  from unknown_wait_type_succeeds_without_waiting[OF h1 h2 h3 h4,
      of "example_env [] ''manual_intervention''" "[]" "(0, [])"]
  show ?thesis
    unfolding t using h1 h2 h3 h4 by simp
qed

end
